theory Spec2Isabelle
  imports Complex_Main
begin

section \<open>The sign language video processor (services/SignLanguageProcessor.ts)\<close>

text \<open>
  The class \<open>SignLanguageProcessor\<close> has three read-only fields and three methods:
  \<open>extractFrames\<close>, \<open>processFrame\<close> and \<open>processVideo\<close>. The fields are read
  through \<open>this\<close>, so the class is a record and the methods take it as an argument.
  \<open>getSignLanguageProcessor\<close> is the singleton the module exports, the object that
  \<open>new SignLanguageProcessor()\<close> builds.
\<close>

record SignLanguageProcessor =
  CONFIDENCE_THRESHOLD :: real
  CONSISTENCY_FRAMES :: nat
  FRAME_INTERVAL_MS :: nat

definition getSignLanguageProcessor :: SignLanguageProcessor where
  "getSignLanguageProcessor =
     \<lparr>CONFIDENCE_THRESHOLD = 8 / 10, CONSISTENCY_FRAMES = 15, FRAME_INTERVAL_MS = 33\<rparr>"

text \<open>
  The value \<open>{ letter: string; confidence: number }\<close> that \<open>processFrame\<close> resolves
  with; \<open>null\<close> is \<open>None\<close>.
\<close>

record prediction =
  letter :: string
  confidence :: real

text \<open>\<open>throw new Error(msg)\<close>: a rejected promise is \<open>Inl (Error msg)\<close>.\<close>

datatype error = Error string

subsection \<open>The outside world\<close>

text \<open>
  The two Expo modules the class calls. A call that throws returns \<open>None\<close>
  (\<open>False\<close> for \<open>deleteAsync\<close>, which resolves with nothing).
  \<open>getThumbnailAsync e videoUri timeMs\<close> is the \<open>uri\<close> of the thumbnail.
\<close>

record env =
  getThumbnailAsync :: "string \<Rightarrow> nat \<Rightarrow> string option"
  readAsStringAsync :: "string \<Rightarrow> string option"
  deleteAsync :: "string \<Rightarrow> bool"

text \<open>
  What a session does to the outside is recorded as the list of the calls that
  \<open>processVideo\<close> and \<open>extractFrames\<close> make, in order, each with its result:
  the progress callback, the thumbnail requests, the per-frame classification and the
  deletion of the frame file. Console output is not recorded.
\<close>

datatype event =
    Called_onProgress nat "string option" string
  | Called_getThumbnailAsync string nat "string option"
  | Called_processFrame string "prediction option"
  | Called_deleteAsync string bool

text \<open>
  The parameter \<open>onProgress\<close> is optional: \<open>None\<close> when the caller passed no
  callback. A callback returns nothing that \<open>processVideo\<close> reads, but it may throw:
  it is given by what it does on the arguments of a call, \<open>None\<close> when it returns and
  \<open>Some err\<close> when it throws \<open>err\<close>. What a callback does is taken to depend on
  the arguments of the call alone.
\<close>

type_synonym callback = "nat \<Rightarrow> string option \<Rightarrow> string \<Rightarrow> error option"

text \<open>
  \<open>onProgress?.(progress, currentLetter, currentText)\<close>: the call as it is recorded,
  and the error it throws, if any. Without a callback nothing is called and nothing is
  thrown.
\<close>

definition onProgress_call ::
  "callback option \<Rightarrow> nat \<Rightarrow> string option \<Rightarrow> string \<Rightarrow> event list" where
  "onProgress_call onProgress progress currentLetter currentText =
     (case onProgress of
        None \<Rightarrow> []
      | Some cb \<Rightarrow> [Called_onProgress progress currentLetter currentText])"

definition onProgress_throws ::
  "callback option \<Rightarrow> nat \<Rightarrow> string option \<Rightarrow> string \<Rightarrow> error option" where
  "onProgress_throws onProgress progress currentLetter currentText =
     (case onProgress of
        None \<Rightarrow> None
      | Some cb \<Rightarrow> cb progress currentLetter currentText)"

subsection \<open>extractFrames\<close>

text \<open>
  The loop \<open>for (let i = 0; i < frameCount; i++)\<close> with the array \<open>frames\<close> it pushes
  to. A thumbnail request that throws is caught inside the loop and breaks out of it;
  nothing else in the outer \<open>try\<close> block can throw, so \<open>extractFrames\<close> always
  resolves.
\<close>

function extractFrames_loop ::
  "SignLanguageProcessor \<Rightarrow> env \<Rightarrow> string \<Rightarrow> nat \<Rightarrow> nat \<Rightarrow> string list \<Rightarrow> event list
     \<Rightarrow> string list \<times> event list" where
  "extractFrames_loop p e videoUri frameCount i frames tr =
     (if i < frameCount then
        (let timeMs = i * FRAME_INTERVAL_MS p in
         case getThumbnailAsync e videoUri timeMs of
           Some uri \<Rightarrow>
             extractFrames_loop p e videoUri frameCount (i + 1) (frames @ [uri])
               (tr @ [Called_getThumbnailAsync videoUri timeMs (Some uri)])
         | None \<Rightarrow> (frames, tr @ [Called_getThumbnailAsync videoUri timeMs None]))
      else (frames, tr))"
  by pat_completeness auto
termination
  by (relation "measure (\<lambda>(p, e, videoUri, frameCount, i, frames, tr). frameCount - i)") auto

declare extractFrames_loop.simps [simp del]

definition extractFrames ::
  "SignLanguageProcessor \<Rightarrow> env \<Rightarrow> string \<Rightarrow> string list \<times> event list" where
  "extractFrames p e videoUri = extractFrames_loop p e videoUri 100 0 [] []"

subsection \<open>processFrame\<close>

text \<open>
  The shipped classifier reads the frame file and returns \<open>null\<close>; a read that throws
  is caught and \<open>null\<close> is returned as well. The model is not used.
\<close>

definition processFrame :: "env \<Rightarrow> string \<Rightarrow> 'm \<Rightarrow> prediction option" where
  "processFrame e frameUri model =
     (case readAsStringAsync e frameUri of
        Some base64 \<Rightarrow> None
      | None \<Rightarrow> None)"

subsection \<open>processVideo\<close>

text \<open>The three local variables of \<open>processVideo\<close> that the frame loop updates.\<close>

record decoder =
  translatedText :: string
  lastPredictedLetter :: string
  framesConsistent :: nat

definition initial_decoder :: decoder where
  "initial_decoder = \<lparr>translatedText = [], lastPredictedLetter = [], framesConsistent = 0\<rparr>"

text \<open>
  The body of \<open>if (result) { ... }\<close> up to the progress update: the consistency counter
  and the commit of a letter. \<open>confidence\<close> is destructured and never read.
\<close>

definition consistency_update :: "SignLanguageProcessor \<Rightarrow> decoder \<Rightarrow> prediction \<Rightarrow> decoder" where
  "consistency_update p s r =
     (let s1 = (if letter r = lastPredictedLetter s
                then s\<lparr>framesConsistent := framesConsistent s + 1\<rparr>
                else s\<lparr>framesConsistent := 0, lastPredictedLetter := letter r\<rparr>)
      in if framesConsistent s1 = CONSISTENCY_FRAMES p
         then s1\<lparr>translatedText := translatedText s1 @ letter r, framesConsistent := 0\<rparr>
         else s1)"

text \<open>
  \<open>if (result) { ... }\<close> as a whole, for frame \<open>i\<close> of \<open>n\<close>: the new variables,
  the progress call, and the error the call throws, if any.
  \<open>Math.floor((i / frames.length) * 60)\<close> is the integer quotient \<open>i * 60 div n\<close>
  (\<open>0 \<le> i < n\<close>, and \<open>n\<close> is at most the frame cap).
\<close>

definition frame_result ::
  "SignLanguageProcessor \<Rightarrow> callback option \<Rightarrow> nat \<Rightarrow> nat \<Rightarrow> decoder \<Rightarrow> prediction option
     \<Rightarrow> decoder \<times> event list \<times> error option" where
  "frame_result p onProgress i n s result =
     (case result of
        None \<Rightarrow> (s, [], None)
      | Some r \<Rightarrow>
          (let s' = consistency_update p s r;
               progress = 30 + (i * 60) div n
           in (s', onProgress_call onProgress progress (Some (letter r)) (translatedText s'),
               onProgress_throws onProgress progress (Some (letter r)) (translatedText s'))))"

text \<open>
  The loop \<open>for (let i = 0; i < frames.length; i++)\<close>. \<open>pf\<close> is
  \<open>this.processFrame(\<cdot>, model)\<close>. An error thrown by the progress call leaves the
  loop at once: the deletion of the frame file comes after the \<open>if\<close> and is in no
  \<open>finally\<close>, so it is not reached. Otherwise the deletion is tried, and the loop
  goes on whether the deletion throws or not. The result is the variables, the calls
  made, and the error that left the loop, if any.
\<close>

function processVideo_loop ::
  "SignLanguageProcessor \<Rightarrow> env \<Rightarrow> (string \<Rightarrow> prediction option) \<Rightarrow> callback option
     \<Rightarrow> string list \<Rightarrow> nat \<Rightarrow> decoder \<Rightarrow> event list
     \<Rightarrow> decoder \<times> event list \<times> error option" where
  "processVideo_loop p e pf onProgress frames i s tr =
     (if i < length frames then
        (let result = pf (frames ! i);
             (s', progress_calls, thrown) = frame_result p onProgress i (length frames) s result
         in case thrown of
              Some err \<Rightarrow>
                (s', tr @ [Called_processFrame (frames ! i) result] @ progress_calls, Some err)
            | None \<Rightarrow>
                (let deleted = deleteAsync e (frames ! i)
                 in processVideo_loop p e pf onProgress frames (i + 1) s'
                      (tr @ [Called_processFrame (frames ! i) result] @ progress_calls
                          @ [Called_deleteAsync (frames ! i) deleted])))
      else (s, tr, None))"
  by pat_completeness auto
termination
  by (relation "measure (\<lambda>(p, e, pf, onProgress, frames, i, s, tr). length frames - i)") auto

declare processVideo_loop.simps [simp del]

text \<open>
  \<open>processVideo\<close> with the per-frame classifier as a parameter: \<open>pf e frameUri model\<close>
  stands for \<open>this.processFrame(frameUri, model)\<close>. A falsy \<open>model\<close> is \<open>None\<close>.
  Everything after the check of the model is inside \<open>try { ... } catch (error) { ...;
  throw error }\<close>, so an error thrown by a progress call rejects the promise with that
  error, as the error of the missing frames does. The result is the settled promise and
  the calls made.
\<close>

definition processVideo_using ::
  "(env \<Rightarrow> string \<Rightarrow> 'm \<Rightarrow> prediction option) \<Rightarrow> SignLanguageProcessor \<Rightarrow> env \<Rightarrow> string
     \<Rightarrow> 'm option \<Rightarrow> callback option \<Rightarrow> (error + string) \<times> event list" where
  "processVideo_using pf p e videoUri model onProgress =
     (case model of
        None \<Rightarrow> (Inl (Error ''Model not loaded''), [])
      | Some m \<Rightarrow>
          (let tr0 = onProgress_call onProgress 10 None ''Extracting frames...''
           in case onProgress_throws onProgress 10 None ''Extracting frames...'' of
                Some err \<Rightarrow> (Inl err, tr0)
              | None \<Rightarrow>
          (let (frames, tr1) = extractFrames p e videoUri
           in if length frames = 0
              then (Inl (Error ''No frames extracted from video''), tr0 @ tr1)
              else
          (let tr2 = onProgress_call onProgress 30 None ''Processing frames...''
           in case onProgress_throws onProgress 30 None ''Processing frames...'' of
                Some err \<Rightarrow> (Inl err, tr0 @ tr1 @ tr2)
              | None \<Rightarrow>
          (let (s, tr3, thrown) = processVideo_loop p e (\<lambda>frameUri. pf e frameUri m)
                                    onProgress frames 0 initial_decoder []
           in case thrown of
                Some err \<Rightarrow> (Inl err, tr0 @ tr1 @ tr2 @ tr3)
              | None \<Rightarrow>
          (let tr4 = onProgress_call onProgress 100 None (translatedText s)
           in case onProgress_throws onProgress 100 None (translatedText s) of
                Some err \<Rightarrow> (Inl err, tr0 @ tr1 @ tr2 @ tr3 @ tr4)
              | None \<Rightarrow> (Inr (translatedText s), tr0 @ tr1 @ tr2 @ tr3 @ tr4)))))))"

text \<open>The method as shipped: the classifier is \<open>processFrame\<close>.\<close>

definition processVideo ::
  "SignLanguageProcessor \<Rightarrow> env \<Rightarrow> string \<Rightarrow> 'm option \<Rightarrow> callback option
     \<Rightarrow> (error + string) \<times> event list" where
  "processVideo = processVideo_using processFrame"

section \<open>Views of a session\<close>

text \<open>
  The frame loop, seen from the three variables alone: \<open>observe\<close> is what one
  iteration does to them given the result of \<open>processFrame\<close>, and \<open>decode\<close> feeds
  a sequence of results in order. \<open>fst_processVideo_loop\<close> below shows that this is
  what \<open>processVideo_loop\<close> computes when no progress call throws.
\<close>

definition observe :: "SignLanguageProcessor \<Rightarrow> decoder \<Rightarrow> prediction option \<Rightarrow> decoder" where
  "observe p s result = (case result of None \<Rightarrow> s | Some r \<Rightarrow> consistency_update p s r)"

definition decode :: "SignLanguageProcessor \<Rightarrow> decoder \<Rightarrow> prediction option list \<Rightarrow> decoder" where
  "decode p s results = foldl (observe p) s results"

text \<open>
  The same loop by recursion on the frames that remain, \<open>i\<close> being the index of the
  first of them and \<open>n\<close> the number of all frames. \<open>processVideo_loop_steps\<close> below
  shows that it agrees with \<open>processVideo_loop\<close>; the proofs go by induction on it.
\<close>

fun frame_steps ::
  "SignLanguageProcessor \<Rightarrow> env \<Rightarrow> (string \<Rightarrow> prediction option) \<Rightarrow> callback option \<Rightarrow> nat
     \<Rightarrow> nat \<Rightarrow> decoder \<Rightarrow> string list \<Rightarrow> decoder \<times> event list \<times> error option" where
  "frame_steps p e pf onProgress n i s [] = (s, [], None)"
| "frame_steps p e pf onProgress n i s (f # fs) =
     (let result = pf f;
          (s', progress_calls, thrown) = frame_result p onProgress i n s result
      in case thrown of
           Some err \<Rightarrow> (s', [Called_processFrame f result] @ progress_calls, Some err)
         | None \<Rightarrow>
             (let (s'', tr, thrown') = frame_steps p e pf onProgress n (Suc i) s' fs
              in (s'', [Called_processFrame f result] @ progress_calls
                         @ [Called_deleteAsync f (deleteAsync e f)] @ tr, thrown')))"

text \<open>
  What is read off the recorded calls: the percentages passed to \<open>onProgress\<close>, the
  calls other than \<open>onProgress\<close>, the frames given to \<open>processFrame\<close>, the frame
  files obtained from \<open>getThumbnailAsync\<close>, and the files given to \<open>deleteAsync\<close>.
\<close>

fun percents :: "event list \<Rightarrow> nat list" where
  "percents [] = []"
| "percents (Called_onProgress n l t # tr) = n # percents tr"
| "percents (ev # tr) = percents tr"

fun file_calls :: "event list \<Rightarrow> event list" where
  "file_calls [] = []"
| "file_calls (Called_onProgress n l t # tr) = file_calls tr"
| "file_calls (ev # tr) = ev # file_calls tr"

fun classified :: "event list \<Rightarrow> string list" where
  "classified [] = []"
| "classified (Called_processFrame f r # tr) = f # classified tr"
| "classified (ev # tr) = classified tr"

fun acquired :: "event list \<Rightarrow> string list" where
  "acquired [] = []"
| "acquired (Called_getThumbnailAsync v t (Some uri) # tr) = uri # acquired tr"
| "acquired (ev # tr) = acquired tr"

fun deleted :: "event list \<Rightarrow> string list" where
  "deleted [] = []"
| "deleted (Called_deleteAsync f ok # tr) = f # deleted tr"
| "deleted (ev # tr) = deleted tr"

text \<open>
  The frames of a video in words: one thumbnail every \<open>FRAME_INTERVAL_MS\<close>
  milliseconds from time 0, up to the first request that fails, and at most 100.
\<close>

definition sampled_frames :: "SignLanguageProcessor \<Rightarrow> env \<Rightarrow> string \<Rightarrow> string list" where
  "sampled_frames p e videoUri =
     map (\<lambda>i. the (getThumbnailAsync e videoUri (i * FRAME_INTERVAL_MS p)))
       (takeWhile (\<lambda>i. getThumbnailAsync e videoUri (i * FRAME_INTERVAL_MS p) \<noteq> None) [0..<100])"

subsection \<open>Concrete inputs\<close>

text \<open>
  The callbacks that always return: \<open>returning True\<close> is a callback that never
  throws, \<open>returning False\<close> is no callback.
\<close>

definition returning :: "bool \<Rightarrow> callback option" where
  "returning given =
     (if given then Some (\<lambda>progress currentLetter currentText. None) else None)"

text \<open>
  A callback that throws when it is told that the frames are being processed, and one
  that throws when it is given a letter.
\<close>

definition throws_at_30 :: callback where
  "throws_at_30 progress currentLetter currentText =
     (if currentText = ''Processing frames...'' then Some (Error ''callback failed'') else None)"


text \<open>
  A classifier that reads the sign off the name of the frame, with confidence 0.9, and
  has no result for the frame \<open>''-''\<close>.
\<close>

definition stub_classifier :: "string \<Rightarrow> prediction option" where
  "stub_classifier frameUri =
     (if frameUri = ''-'' then None else Some \<lparr>letter = frameUri, confidence = 9 / 10\<rparr>)"

text \<open>A processor that commits after 3 frames instead of 15.\<close>

definition scenario_processor :: SignLanguageProcessor where
  "scenario_processor =
     \<lparr>CONFIDENCE_THRESHOLD = 8 / 10, CONSISTENCY_FRAMES = 3, FRAME_INTERVAL_MS = 33\<rparr>"

text \<open>
  A video of two frames: the third thumbnail request fails. The file of the second
  frame cannot be read, and the file of the first cannot be deleted.
\<close>

definition two_frame_env :: env where
  "two_frame_env =
     \<lparr>getThumbnailAsync = (\<lambda>videoUri timeMs.
          if timeMs = 0 then Some ''frame0.jpg''
          else if timeMs = 33 then Some ''frame1.jpg'' else None),
      readAsStringAsync = (\<lambda>uri. if uri = ''frame0.jpg'' then Some ''base64'' else None),
      deleteAsync = (\<lambda>uri. uri = ''frame1.jpg'')\<rparr>"

text \<open>A video that gives no thumbnail at all.\<close>

definition no_frame_env :: env where
  "no_frame_env =
     \<lparr>getThumbnailAsync = (\<lambda>videoUri timeMs. None),
      readAsStringAsync = (\<lambda>uri. None),
      deleteAsync = (\<lambda>uri. False)\<rparr>"

section \<open>Lemmas\<close>

subsection \<open>The progress call\<close>

lemma onProgress_returning [simp]:
  "onProgress_throws (returning given) n l t = None"
  "onProgress_call (returning given) n l t = (if given then [Called_onProgress n l t] else [])"
  by (simp_all add: onProgress_throws_def onProgress_call_def returning_def)

lemma onProgress_None [simp]:
  "onProgress_throws None n l t = None"
  "onProgress_call None n l t = []"
  by (simp_all add: onProgress_throws_def onProgress_call_def)

lemma onProgress_call_returning:
  "onProgress_call onProgress n l t = onProgress_call (returning (onProgress \<noteq> None)) n l t"
  by (cases onProgress) (simp_all add: onProgress_call_def returning_def)

lemma thrown_is_called:
  "onProgress_throws onProgress n l t = Some err \<Longrightarrow>
   Called_onProgress n l t \<in> set (onProgress_call onProgress n l t)"
  by (cases onProgress) (simp_all add: onProgress_call_def)

subsection \<open>The frame loop\<close>

lemma percents_append [simp]: "percents (xs @ ys) = percents xs @ percents ys"
  by (induction xs rule: percents.induct) simp_all

lemma file_calls_append [simp]: "file_calls (xs @ ys) = file_calls xs @ file_calls ys"
  by (induction xs rule: file_calls.induct) simp_all

lemma classified_append [simp]: "classified (xs @ ys) = classified xs @ classified ys"
  by (induction xs rule: classified.induct) simp_all

lemma acquired_append [simp]: "acquired (xs @ ys) = acquired xs @ acquired ys"
  by (induction xs rule: acquired.induct) simp_all

lemma deleted_append [simp]: "deleted (xs @ ys) = deleted xs @ deleted ys"
  by (induction xs rule: deleted.induct) simp_all

lemma onProgress_call_projections [simp]:
  "file_calls (onProgress_call onProgress n l t) = []"
  "classified (onProgress_call onProgress n l t) = []"
  "acquired (onProgress_call onProgress n l t) = []"
  "deleted (onProgress_call onProgress n l t) = []"
  "percents (onProgress_call onProgress n l t) = (if onProgress \<noteq> None then [n] else [])"
  by (simp_all add: onProgress_call_def split: option.split)

lemma fst_frame_result: "fst (frame_result p onProgress i n s result) = observe p s result"
  by (simp add: frame_result_def observe_def Let_def split: option.split)

lemma calls_frame_result:
  "fst (snd (frame_result p onProgress i n s result)) =
     (case result of None \<Rightarrow> []
      | Some r \<Rightarrow> onProgress_call onProgress (30 + (i * 60) div n) (Some (letter r))
                    (translatedText (observe p s result)))"
  by (simp add: frame_result_def observe_def Let_def split: option.split)

lemma thrown_frame_result:
  "snd (snd (frame_result p onProgress i n s result)) =
     (case result of None \<Rightarrow> None
      | Some r \<Rightarrow> onProgress_throws onProgress (30 + (i * 60) div n) (Some (letter r))
                    (translatedText (observe p s result)))"
  by (simp add: frame_result_def observe_def Let_def split: option.split)

lemma thrown_frame_result_returning [simp]:
  "snd (snd (frame_result p (returning given) i n s result)) = None"
  by (simp add: thrown_frame_result split: option.split)

lemma frame_result_projections [simp]:
  "file_calls (fst (snd (frame_result p onProgress i n s result))) = []"
  "classified (fst (snd (frame_result p onProgress i n s result))) = []"
  "acquired (fst (snd (frame_result p onProgress i n s result))) = []"
  "deleted (fst (snd (frame_result p onProgress i n s result))) = []"
  "percents (fst (snd (frame_result p onProgress i n s result))) =
     (if onProgress \<noteq> None \<and> result \<noteq> None then [30 + (i * 60) div n] else [])"
  by (simp_all add: calls_frame_result split: option.split)

lemma frame_steps_Cons:
  "frame_steps p e pf onProgress n i s (f # fs) =
     (case snd (snd (frame_result p onProgress i n s (pf f))) of
        Some err \<Rightarrow>
          (observe p s (pf f),
           Called_processFrame f (pf f) # fst (snd (frame_result p onProgress i n s (pf f))),
           Some err)
      | None \<Rightarrow>
          (fst (frame_steps p e pf onProgress n (Suc i) (observe p s (pf f)) fs),
           Called_processFrame f (pf f) # fst (snd (frame_result p onProgress i n s (pf f)))
             @ Called_deleteAsync f (deleteAsync e f)
             # fst (snd (frame_steps p e pf onProgress n (Suc i) (observe p s (pf f)) fs)),
           snd (snd (frame_steps p e pf onProgress n (Suc i) (observe p s (pf f)) fs))))"
  by (simp add: Let_def case_prod_beta fst_frame_result split: option.split)

lemma frame_steps_Cons_returning:
  "frame_steps p e pf (returning given) n i s (f # fs) =
     (fst (frame_steps p e pf (returning given) n (Suc i) (observe p s (pf f)) fs),
      Called_processFrame f (pf f) # fst (snd (frame_result p (returning given) i n s (pf f)))
        @ Called_deleteAsync f (deleteAsync e f)
        # fst (snd (frame_steps p e pf (returning given) n (Suc i) (observe p s (pf f)) fs)),
      snd (snd (frame_steps p e pf (returning given) n (Suc i) (observe p s (pf f)) fs)))"
  by (simp add: frame_steps_Cons del: frame_steps.simps(2))

lemma processVideo_loop_steps:
  "i \<le> length frames \<Longrightarrow>
   processVideo_loop p e pf onProgress frames i s tr =
     (fst (frame_steps p e pf onProgress (length frames) i s (drop i frames)),
      tr @ fst (snd (frame_steps p e pf onProgress (length frames) i s (drop i frames))),
      snd (snd (frame_steps p e pf onProgress (length frames) i s (drop i frames))))"
proof (induction "length frames - i" arbitrary: i s tr)
  case 0
  then show ?case by (simp add: processVideo_loop.simps)
next
  case (Suc k)
  then have lt: "i < length frames" by simp
  then have d: "drop i frames = frames ! i # drop (Suc i) frames"
    by (simp add: Cons_nth_drop_Suc)
  from Suc have k: "k = length frames - (i + 1)" and le: "i + 1 \<le> length frames" by simp_all
  show ?case
    using lt Suc.hyps(1) [OF k le]
    by (subst processVideo_loop.simps)
       (simp add: d Let_def case_prod_beta fst_frame_result split: option.split)
qed

lemma thrown_frame_steps_returning [simp]:
  "snd (snd (frame_steps p e pf (returning given) n i s fs)) = None"
proof (induction fs arbitrary: i s)
  case Nil
  then show ?case by simp
next
  case (Cons f fs)
  show ?case
    by (simp add: frame_steps_Cons_returning Cons.IH del: frame_steps.simps(2))
qed

lemma fst_frame_steps:
  "snd (snd (frame_steps p e pf onProgress n i s fs)) = None \<Longrightarrow>
   fst (frame_steps p e pf onProgress n i s fs) = decode p s (map pf fs)"
proof (induction fs arbitrary: i s)
  case Nil
  then show ?case by (simp add: decode_def)
next
  case (Cons f fs)
  from Cons.prems have
    a: "snd (snd (frame_result p onProgress i n s (pf f))) = None" and
    b: "snd (snd (frame_steps p e pf onProgress n (Suc i) (observe p s (pf f)) fs)) = None"
    by (auto simp add: frame_steps_Cons simp del: frame_steps.simps(2) split: option.splits)
  have "fst (frame_steps p e pf onProgress n i s (f # fs)) =
        fst (frame_steps p e pf onProgress n (Suc i) (observe p s (pf f)) fs)"
    using a by (simp add: frame_steps_Cons del: frame_steps.simps(2))
  then show ?case using Cons.IH [OF b] by (simp add: decode_def)
qed

lemma frame_steps_unthrown:
  "snd (snd (frame_steps p e pf onProgress n i s fs)) = None \<Longrightarrow>
   frame_steps p e pf onProgress n i s fs =
     frame_steps p e pf (returning (onProgress \<noteq> None)) n i s fs"
proof (induction fs arbitrary: i s)
  case Nil
  then show ?case by simp
next
  case (Cons f fs)
  from Cons.prems have
    a: "snd (snd (frame_result p onProgress i n s (pf f))) = None" and
    b: "snd (snd (frame_steps p e pf onProgress n (Suc i) (observe p s (pf f)) fs)) = None"
    by (auto simp add: frame_steps_Cons simp del: frame_steps.simps(2) split: option.splits)
  have c: "fst (snd (frame_result p onProgress i n s (pf f))) =
           fst (snd (frame_result p (returning (onProgress \<noteq> None)) i n s (pf f)))"
    unfolding calls_frame_result
    by (cases "pf f") (simp_all add: onProgress_call_returning [of onProgress])
  show ?case
    unfolding frame_steps_Cons using a c Cons.IH [OF b] by simp
qed

lemma frame_steps_thrown:
  "snd (snd (frame_steps p e pf onProgress n i s fs)) = Some err \<Longrightarrow>
   \<exists>a l t. onProgress_throws onProgress a l t = Some err
     \<and> Called_onProgress a l t \<in> set (fst (snd (frame_steps p e pf onProgress n i s fs)))"
proof (induction fs arbitrary: i s)
  case Nil
  then show ?case by simp
next
  case (Cons f fs)
  show ?case
  proof (cases "snd (snd (frame_result p onProgress i n s (pf f)))")
    case (Some err')
    with Cons.prems have e: "err' = err"
      by (simp add: frame_steps_Cons del: frame_steps.simps(2))
    from Some obtain r where r: "pf f = Some r"
      by (cases "pf f") (simp_all add: thrown_frame_result)
    let ?a = "30 + (i * 60) div n" and ?l = "Some (letter r)"
    let ?t = "translatedText (observe p s (pf f))"
    from Some r e have th: "onProgress_throws onProgress ?a ?l ?t = Some err"
      by (simp add: thrown_frame_result)
    then have "Called_onProgress ?a ?l ?t \<in> set (onProgress_call onProgress ?a ?l ?t)"
      by (rule thrown_is_called)
    then have "Called_onProgress ?a ?l ?t
        \<in> set (fst (snd (frame_steps p e pf onProgress n i s (f # fs))))"
      using Some r by (simp add: frame_steps_Cons calls_frame_result del: frame_steps.simps(2))
    with th show ?thesis by blast
  next
    case None
    with Cons.prems have
      "snd (snd (frame_steps p e pf onProgress n (Suc i) (observe p s (pf f)) fs)) = Some err"
      by (simp add: frame_steps_Cons del: frame_steps.simps(2))
    from Cons.IH [OF this] obtain a l t where
      "onProgress_throws onProgress a l t = Some err"
      "Called_onProgress a l t
         \<in> set (fst (snd (frame_steps p e pf onProgress n (Suc i) (observe p s (pf f)) fs)))"
      by blast
    then show ?thesis
      using None by (auto simp add: frame_steps_Cons simp del: frame_steps.simps(2))
  qed
qed

lemma returning_eq_None [simp]: "(returning given = None) = (\<not> given)"
  by (simp add: returning_def)


lemma classified_frame_steps:
  "classified (fst (snd (frame_steps p e pf (returning given) n i s fs))) = fs"
proof (induction fs arbitrary: i s)
  case Nil
  then show ?case by simp
next
  case (Cons f fs)
  show ?case
    by (simp add: frame_steps_Cons_returning Cons.IH del: frame_steps.simps(2))
qed

lemma deleted_frame_steps:
  "deleted (fst (snd (frame_steps p e pf (returning given) n i s fs))) = fs"
proof (induction fs arbitrary: i s)
  case Nil
  then show ?case by simp
next
  case (Cons f fs)
  show ?case
    by (simp add: frame_steps_Cons_returning Cons.IH del: frame_steps.simps(2))
qed

lemma acquired_frame_steps:
  "acquired (fst (snd (frame_steps p e pf onProgress n i s fs))) = []"
proof (induction fs arbitrary: i s)
  case Nil
  then show ?case by simp
next
  case (Cons f fs)
  show ?case
    by (simp add: frame_steps_Cons Cons.IH del: frame_steps.simps(2) split: option.split)
qed

lemma classified_frame_steps_length:
  "length (classified (fst (snd (frame_steps p e pf onProgress n i s fs)))) \<le> length fs"
proof (induction fs arbitrary: i s)
  case Nil
  then show ?case by simp
next
  case (Cons f fs)
  show ?case
    by (simp add: frame_steps_Cons Cons.IH del: frame_steps.simps(2) split: option.split)
qed

lemma percents_frame_steps_Cons:
  "percents (fst (snd (frame_steps p e pf (returning given) n i s (f # fs)))) =
     (if given \<and> pf f \<noteq> None then [30 + (i * 60) div n] else [])
       @ percents (fst (snd (frame_steps p e pf (returning given) n (Suc i) (observe p s (pf f)) fs)))"
  by (simp add: frame_steps_Cons_returning del: frame_steps.simps(2))

lemma percents_frame_steps_bounds:
  "x \<in> set (percents (fst (snd (frame_steps p e pf (returning given) n i s fs)))) \<Longrightarrow>
     30 + (i * 60) div n \<le> x \<and> x \<le> 30 + ((i + length fs - 1) * 60) div n"
proof (induction fs arbitrary: i s)
  case Nil
  then show ?case by simp
next
  case (Cons f fs)
  let ?rest = "percents (fst (snd (frame_steps p e pf (returning given) n (Suc i)
                 (observe p s (pf f)) fs)))"
  from Cons.prems have "x = 30 + (i * 60) div n \<or> x \<in> set ?rest"
    unfolding percents_frame_steps_Cons by (auto split: if_splits)
  then show ?case
  proof
    assume "x = 30 + (i * 60) div n"
    moreover have "(i * 60) div n \<le> ((i + length (f # fs) - 1) * 60) div n"
      by (rule div_le_mono) simp
    ultimately show ?thesis by simp
  next
    assume "x \<in> set ?rest"
    from Cons.IH [OF this] have
      a: "30 + (Suc i * 60) div n \<le> x" and b: "x \<le> 30 + ((Suc i + length fs - 1) * 60) div n"
      by simp_all
    have "(i * 60) div n \<le> (Suc i * 60) div n"
      by (rule div_le_mono) simp
    then show ?thesis using a b by simp
  qed
qed

lemma percents_frame_steps_sorted:
  "sorted (percents (fst (snd (frame_steps p e pf (returning given) n i s fs))))"
proof (induction fs arbitrary: i s)
  case Nil
  then show ?case by simp
next
  case (Cons f fs)
  let ?rest = "percents (fst (snd (frame_steps p e pf (returning given) n (Suc i)
                 (observe p s (pf f)) fs)))"
  have le: "30 + (i * 60) div n \<le> x" if "x \<in> set ?rest" for x
  proof -
    from that have "30 + (Suc i * 60) div n \<le> x"
      using percents_frame_steps_bounds by blast
    moreover have "(i * 60) div n \<le> (Suc i * 60) div n"
      by (rule div_le_mono) simp
    ultimately show ?thesis by simp
  qed
  have "sorted ?rest" by (rule Cons.IH)
  then show ?case
    unfolding percents_frame_steps_Cons using le by (simp add: sorted_append)
qed

lemma percents_frame_steps_exact:
  "percents (fst (snd (frame_steps p e pf (returning True) n i s fs))) =
     map (\<lambda>j. 30 + (j * 60) div n) (filter (\<lambda>j. pf (fs ! (j - i)) \<noteq> None) [i..<i + length fs])"
proof (induction fs arbitrary: i s)
  case Nil
  then show ?case by simp
next
  case (Cons f fs)
  have "[i..<i + length (f # fs)] = i # [Suc i..<i + length (f # fs)]"
    by (rule upt_conv_Cons) simp
  then have u: "[i..<i + length (f # fs)] = i # [Suc i..<Suc i + length fs]"
    by (simp del: upt_Suc)
  have f: "filter (\<lambda>j. pf ((f # fs) ! (j - i)) \<noteq> None) [Suc i..<Suc i + length fs] =
           filter (\<lambda>j. pf (fs ! (j - Suc i)) \<noteq> None) [Suc i..<Suc i + length fs]"
    by (rule filter_cong) (auto simp: nth_Cons' Suc_diff_Suc)
  show ?case
    by (subst percents_frame_steps_Cons, subst Cons.IH, subst u, subst f [symmetric])
       (simp del: upt_Suc)
qed

lemma percents_frame_steps_False:
  "percents (fst (snd (frame_steps p e pf None n i s fs))) = []"
proof (induction fs arbitrary: i s)
  case Nil
  then show ?case by simp
next
  case (Cons f fs)
  show ?case
    by (simp add: frame_steps_Cons Cons.IH thrown_frame_result del: frame_steps.simps(2)
          split: option.split)
qed

text \<open>Whatever the callback does, the text only grows.\<close>

lemma observe_grows: "\<exists>w. translatedText (observe p s r) = translatedText s @ w"
  by (cases r) (simp_all add: observe_def consistency_update_def Let_def)

lemma frame_steps_grows:
  "\<exists>w. translatedText (fst (frame_steps p e pf onProgress n i s fs)) = translatedText s @ w"
proof (induction fs arbitrary: i s)
  case Nil
  then show ?case by simp
next
  case (Cons f fs)
  obtain w where w: "translatedText (observe p s (pf f)) = translatedText s @ w"
    using observe_grows by blast
  from Cons.IH [of "Suc i" "observe p s (pf f)"] obtain w' where
    "translatedText (fst (frame_steps p e pf onProgress n (Suc i) (observe p s (pf f)) fs))
       = translatedText (observe p s (pf f)) @ w'" ..
  with w show ?case
    by (simp add: frame_steps_Cons del: frame_steps.simps(2) split: option.split)
qed



subsection \<open>Frame extraction, the consistency counter and the session\<close>

lemma fst_extractFrames_loop:
  "fst (extractFrames_loop p e v c i frames tr) =
     frames @ map (\<lambda>k. the (getThumbnailAsync e v (k * FRAME_INTERVAL_MS p)))
       (takeWhile (\<lambda>k. getThumbnailAsync e v (k * FRAME_INTERVAL_MS p) \<noteq> None) [i..<c])"
proof (induction p e v c i frames tr rule: extractFrames_loop.induct)
  case (1 p e v c i frames tr)
  show ?case
  proof (cases "i < c")
    case False
    then show ?thesis by (subst extractFrames_loop.simps) simp
  next
    case True
    then have u: "[i..<c] = i # [i + 1..<c]" by (simp add: upt_conv_Cons)
    show ?thesis
    proof (cases "getThumbnailAsync e v (i * FRAME_INTERVAL_MS p)")
      case None
      then show ?thesis using True
        by (subst extractFrames_loop.simps) (simp add: u)
    next
      case (Some uri)
      then show ?thesis using True "1.IH" [OF True refl Some]
        by (subst extractFrames_loop.simps) (simp add: u)
    qed
  qed
qed

lemma snd_extractFrames_loop:
  "\<exists>t. snd (extractFrames_loop p e v c i frames tr) = tr @ t \<and> file_calls t = t
        \<and> percents t = [] \<and> classified t = [] \<and> deleted t = []
        \<and> fst (extractFrames_loop p e v c i frames tr) = frames @ acquired t"
proof (induction p e v c i frames tr rule: extractFrames_loop.induct)
  case (1 p e v c i frames tr)
  show ?case
  proof (cases "i < c")
    case False
    then show ?thesis by (subst (1 2) extractFrames_loop.simps) simp
  next
    case True
    show ?thesis
    proof (cases "getThumbnailAsync e v (i * FRAME_INTERVAL_MS p)")
      case None
      then show ?thesis using True
        by (subst (1 2) extractFrames_loop.simps) simp
    next
      case (Some uri)
      let ?ev = "Called_getThumbnailAsync v (i * FRAME_INTERVAL_MS p) (Some uri)"
      from "1.IH" [OF True refl Some] obtain t where
        t: "snd (extractFrames_loop p e v c (i + 1) (frames @ [uri]) (tr @ [?ev])) = (tr @ [?ev]) @ t"
           "file_calls t = t" "percents t = []" "classified t = []" "deleted t = []"
           "fst (extractFrames_loop p e v c (i + 1) (frames @ [uri]) (tr @ [?ev]))
              = (frames @ [uri]) @ acquired t"
        by blast
      have eq: "extractFrames_loop p e v c i frames tr =
                extractFrames_loop p e v c (i + 1) (frames @ [uri]) (tr @ [?ev])"
        using True Some by (subst extractFrames_loop.simps) simp
      show ?thesis
        unfolding eq using t by (intro exI [of _ "?ev # t"]) simp
    qed
  qed
qed

lemma fst_extractFrames: "fst (extractFrames p e v) = sampled_frames p e v"
  by (simp add: extractFrames_def sampled_frames_def fst_extractFrames_loop)

lemma length_sampled_frames: "length (sampled_frames p e v) \<le> 100"
proof -
  have "length (sampled_frames p e v) \<le> length [0..<100::nat]"
    unfolding sampled_frames_def length_map by (rule length_takeWhile_le)
  then show ?thesis by simp
qed

lemma extractFrames_trace:
  "file_calls (snd (extractFrames p e v)) = snd (extractFrames p e v)"
  "percents (snd (extractFrames p e v)) = []"
  "classified (snd (extractFrames p e v)) = []"
  "deleted (snd (extractFrames p e v)) = []"
  "acquired (snd (extractFrames p e v)) = fst (extractFrames p e v)"
  using snd_extractFrames_loop [of p e v 100 0 "[]" "[]"]
  by (auto simp: extractFrames_def)

lemma observe_None [simp]: "observe p s None = s"
  by (simp add: observe_def)

lemma observe_same:
  "lastPredictedLetter s = l \<Longrightarrow> letter r = l \<Longrightarrow>
   observe p s (Some r) =
     (if framesConsistent s + 1 = CONSISTENCY_FRAMES p
      then s\<lparr>translatedText := translatedText s @ l, framesConsistent := 0\<rparr>
      else s\<lparr>framesConsistent := framesConsistent s + 1\<rparr>)"
  by (simp add: observe_def consistency_update_def Let_def)

lemma observe_other:
  "letter r \<noteq> lastPredictedLetter s \<Longrightarrow>
   observe p s (Some r) =
     (if CONSISTENCY_FRAMES p = 0
      then s\<lparr>translatedText := translatedText s @ letter r, lastPredictedLetter := letter r,
             framesConsistent := 0\<rparr>
      else s\<lparr>lastPredictedLetter := letter r, framesConsistent := 0\<rparr>)"
  by (auto simp add: observe_def consistency_update_def Let_def)

lemma consistency_update_confidence:
  "consistency_update p s (r\<lparr>confidence := c\<rparr>) = consistency_update p s r"
  by (simp add: consistency_update_def Let_def)

lemma decode_Nil [simp]: "decode p s [] = s"
  by (simp add: decode_def)

lemma decode_Cons [simp]: "decode p s (r # rs) = decode p (observe p s r) rs"
  by (simp add: decode_def)

lemma decode_append: "decode p s (xs @ ys) = decode p (decode p s xs) ys"
  by (simp add: decode_def)

lemma decode_filter: "decode p s (filter (\<lambda>r. r \<noteq> None) rs) = decode p s rs"
  by (induction rs arbitrary: s) auto

lemma decode_run:
  assumes R: "0 < CONSISTENCY_FRAMES p"
  shows "lastPredictedLetter s = l \<Longrightarrow> framesConsistent s < CONSISTENCY_FRAMES p \<Longrightarrow>
         \<forall>r \<in> set rs. letter r = l \<Longrightarrow>
         decode p s (map Some rs) =
           s\<lparr>translatedText :=
                translatedText s
                  @ concat (replicate ((framesConsistent s + length rs) div CONSISTENCY_FRAMES p) l),
              framesConsistent := (framesConsistent s + length rs) mod CONSISTENCY_FRAMES p\<rparr>"
proof (induction rs arbitrary: s)
  case Nil
  then show ?case by simp
next
  case (Cons r rs)
  let ?R = "CONSISTENCY_FRAMES p"
  let ?c = "framesConsistent s"
  from Cons.prems have lr: "letter r = l" and all: "\<forall>r \<in> set rs. letter r = l" by simp_all
  show ?case
  proof (cases "?c + 1 = ?R")
    case True
    let ?s' = "s\<lparr>translatedText := translatedText s @ l, framesConsistent := 0\<rparr>"
    have o: "observe p s (Some r) = ?s'"
      using observe_same [OF Cons.prems(1) lr, of p] True by simp
    have "decode p ?s' (map Some rs) =
            ?s'\<lparr>translatedText := translatedText ?s' @ concat (replicate (length rs div ?R) l),
                 framesConsistent := length rs mod ?R\<rparr>"
      using Cons.IH [of ?s'] Cons.prems(1) R all by simp
    moreover have e: "?c + length (r # rs) = ?R + length rs"
      using True by simp
    moreover have "(?R + length rs) div ?R = Suc (length rs div ?R)"
      using R by simp
    moreover have "(?R + length rs) mod ?R = length rs mod ?R"
      by simp
    ultimately show ?thesis using o by (simp del: list.size)
  next
    case False
    let ?s' = "s\<lparr>framesConsistent := ?c + 1\<rparr>"
    have o: "observe p s (Some r) = ?s'"
      using observe_same [OF Cons.prems(1) lr, of p] False by simp
    from False Cons.prems(2) have lt: "framesConsistent ?s' < ?R" by simp
    show ?thesis
      using Cons.IH [of ?s'] Cons.prems(1) lt all o by simp
  qed
qed

lemma decode_single_label:
  assumes R: "0 < CONSISTENCY_FRAMES p" and l: "l \<noteq> []"
    and all: "\<forall>r \<in> set rs. letter r = l"
  shows "translatedText (decode p initial_decoder (map Some rs)) =
           concat (replicate ((length rs - 1) div CONSISTENCY_FRAMES p) l)"
proof (cases rs)
  case Nil
  then show ?thesis by (simp add: initial_decoder_def)
next
  case (Cons r rs')
  let ?s = "initial_decoder\<lparr>lastPredictedLetter := l, framesConsistent := 0\<rparr>"
  from all Cons have lr: "letter r = l" and all': "\<forall>r \<in> set rs'. letter r = l" by simp_all
  have "observe p initial_decoder (Some r) = ?s"
    using observe_other [of r initial_decoder p] R l lr by (simp add: initial_decoder_def)
  moreover have "translatedText (decode p ?s (map Some rs')) =
      concat (replicate (length rs' div CONSISTENCY_FRAMES p) l)"
    using decode_run [OF R, of ?s l rs'] R all' by (simp add: initial_decoder_def)
  ultimately show ?thesis using Cons by simp
qed

lemma processFrame_None [simp]: "processFrame e f m = None"
  by (simp add: processFrame_def split: option.split)

lemma decode_all_None: "decode p s (map (\<lambda>f. None) fs) = s"
  by (induction fs) simp_all

lemma last_frame_percent: "i < n \<Longrightarrow> 30 + (i * 60) div n \<le> (89::nat)"
proof -
  assume "i < n"
  then have "i * 60 < n * 60" by simp
  then have "(i * 60) div n < 60"
    by (simp add: less_mult_imp_div_less mult.commute)
  then show ?thesis by simp
qed

lemma sampled_frames_stop:
  "length (sampled_frames p e v) < 100 \<Longrightarrow>
   getThumbnailAsync e v (length (sampled_frames p e v) * FRAME_INTERVAL_MS p) = None"
proof -
  let ?P = "\<lambda>i. getThumbnailAsync e v (i * FRAME_INTERVAL_MS p) \<noteq> None"
  let ?k = "length (takeWhile ?P [0..<100])"
  assume "length (sampled_frames p e v) < 100"
  then have lt: "?k < length [0..<100::nat]"
    by (simp add: sampled_frames_def)
  then have "\<not> ?P ([0..<100] ! ?k)"
    by (rule nth_length_takeWhile)
  moreover from lt have "[0..<100] ! ?k = ?k"
    by (simp del: upt_Suc)
  ultimately show ?thesis
    by (simp add: sampled_frames_def del: upt_Suc)
qed

lemma sampled_frames_deleteAsync [simp]:
  "sampled_frames p (e\<lparr>deleteAsync := d\<rparr>) v = sampled_frames p e v"
  by (simp add: sampled_frames_def)

lemma extractFrames_two_frame_env:
  "FRAME_INTERVAL_MS p = 33 \<Longrightarrow>
   extractFrames p two_frame_env v =
     ([''frame0.jpg'', ''frame1.jpg''],
      [Called_getThumbnailAsync v 0 (Some ''frame0.jpg''),
       Called_getThumbnailAsync v 33 (Some ''frame1.jpg''),
       Called_getThumbnailAsync v 66 None])"
  by (simp add: extractFrames_def extractFrames_loop.simps two_frame_env_def)

lemma extractFrames_no_frame_env:
  "extractFrames p no_frame_env v = ([], [Called_getThumbnailAsync v 0 None])"
  by (simp add: extractFrames_def extractFrames_loop.simps no_frame_env_def)

lemma extractFrames_two_frames:
  "extractFrames getSignLanguageProcessor two_frame_env v =
     ([''frame0.jpg'', ''frame1.jpg''],
      [Called_getThumbnailAsync v 0 (Some ''frame0.jpg''),
       Called_getThumbnailAsync v 33 (Some ''frame1.jpg''),
       Called_getThumbnailAsync v 66 None])"
  by (rule extractFrames_two_frame_env) (simp add: getSignLanguageProcessor_def)

lemma decode_grows: "\<exists>w. translatedText (decode p s rs) = translatedText s @ w"
proof (induction rs arbitrary: s)
  case Nil
  then show ?case by simp
next
  case (Cons r rs)
  obtain w where w: "translatedText (observe p s r) = translatedText s @ w"
    using observe_grows by blast
  from Cons.IH [of "observe p s r"] obtain w' where
    "translatedText (decode p (observe p s r) rs) = translatedText (observe p s r) @ w'" ..
  with w show ?case by simp
qed

lemma fst_processVideo_loop:
  "fst (processVideo_loop p e pf (returning given) frames 0 s tr) = decode p s (map pf frames)"
  by (simp add: processVideo_loop_steps fst_frame_steps)

lemma calls_processVideo_loop:
  "fst (snd (processVideo_loop p e pf onProgress frames 0 s tr)) =
     tr @ fst (snd (frame_steps p e pf onProgress (length frames) 0 s frames))"
  by (simp add: processVideo_loop_steps)

lemma thrown_processVideo_loop:
  "snd (snd (processVideo_loop p e pf onProgress frames 0 s tr)) =
     snd (snd (frame_steps p e pf onProgress (length frames) 0 s frames))"
  by (simp add: processVideo_loop_steps)

lemma frame_steps_all_None:
  "\<forall>f \<in> set fs. pf f = None \<Longrightarrow>
   frame_steps p e pf onProgress n i s fs =
     (s, concat (map (\<lambda>f. [Called_processFrame f None, Called_deleteAsync f (deleteAsync e f)]) fs),
      None)"
proof (induction fs arbitrary: i)
  case Nil
  then show ?case by simp
next
  case (Cons f fs)
  then show ?case
    by (simp add: frame_result_def)
qed

text \<open>The session, with the loop by recursion on the frames.\<close>

lemma processVideo_using_steps:
  "processVideo_using pf p e v model onProgress =
     (case model of
        None \<Rightarrow> (Inl (Error ''Model not loaded''), [])
      | Some m \<Rightarrow>
          (let tr0 = onProgress_call onProgress 10 None ''Extracting frames...'';
               frames = fst (extractFrames p e v);
               tr1 = snd (extractFrames p e v);
               tr2 = onProgress_call onProgress 30 None ''Processing frames...'';
               st = frame_steps p e (\<lambda>f. pf e f m) onProgress (length frames) 0
                      initial_decoder frames;
               tr4 = onProgress_call onProgress 100 None (translatedText (fst st))
           in case onProgress_throws onProgress 10 None ''Extracting frames...'' of
                Some err \<Rightarrow> (Inl err, tr0)
              | None \<Rightarrow>
                  if frames = [] then (Inl (Error ''No frames extracted from video''), tr0 @ tr1)
                  else
                    (case onProgress_throws onProgress 30 None ''Processing frames...'' of
                       Some err \<Rightarrow> (Inl err, tr0 @ tr1 @ tr2)
                     | None \<Rightarrow>
                         (case snd (snd st) of
                            Some err \<Rightarrow> (Inl err, tr0 @ tr1 @ tr2 @ fst (snd st))
                          | None \<Rightarrow>
                              (case onProgress_throws onProgress 100 None
                                      (translatedText (fst st)) of
                                 Some err \<Rightarrow> (Inl err, tr0 @ tr1 @ tr2 @ fst (snd st) @ tr4)
                               | None \<Rightarrow>
                                   (Inr (translatedText (fst st)),
                                    tr0 @ tr1 @ tr2 @ fst (snd st) @ tr4))))))"
  by (simp add: processVideo_using_def Let_def case_prod_beta processVideo_loop_steps
        split: option.split)

lemma processVideo_using_cases:
  "processVideo_using pf p e v model (returning given) =
     (case model of
        None \<Rightarrow> (Inl (Error ''Model not loaded''), [])
      | Some m \<Rightarrow>
          if fst (extractFrames p e v) = []
          then (Inl (Error ''No frames extracted from video''),
                onProgress_call (returning given) 10 None ''Extracting frames...''
                  @ snd (extractFrames p e v))
          else (Inr (translatedText (decode p initial_decoder
                       (map (\<lambda>f. pf e f m) (fst (extractFrames p e v))))),
                onProgress_call (returning given) 10 None ''Extracting frames...''
                  @ snd (extractFrames p e v)
                  @ onProgress_call (returning given) 30 None ''Processing frames...''
                  @ fst (snd (frame_steps p e (\<lambda>f. pf e f m) (returning given)
                           (length (fst (extractFrames p e v))) 0 initial_decoder
                           (fst (extractFrames p e v))))
                  @ onProgress_call (returning given) 100 None
                      (translatedText (decode p initial_decoder
                         (map (\<lambda>f. pf e f m) (fst (extractFrames p e v)))))))"
  by (simp add: processVideo_using_steps Let_def fst_frame_steps split: option.split)

lemma frame_steps_never_thrown:
  assumes "\<forall>a l t. onProgress_throws onProgress a l t = None"
  shows "snd (snd (frame_steps p e pf onProgress n i s fs)) = None"
proof (cases "snd (snd (frame_steps p e pf onProgress n i s fs))")
  case None
  then show ?thesis .
next
  case (Some err)
  from frame_steps_thrown [OF Some] obtain a l t where
    "onProgress_throws onProgress a l t = Some err" by blast
  with assms show ?thesis by simp
qed

text \<open>
  A session in which no progress call throws is the session with a callback that never
  throws (or with none).
\<close>

lemma processVideo_using_quiet:
  assumes t10: "onProgress_throws onProgress 10 None ''Extracting frames...'' = None"
    and t30: "onProgress_throws onProgress 30 None ''Processing frames...'' = None"
    and th: "\<And>m. model = Some m \<Longrightarrow>
               snd (snd (frame_steps p e (\<lambda>f. pf e f m) onProgress
                 (length (fst (extractFrames p e v))) 0 initial_decoder
                 (fst (extractFrames p e v)))) = None"
    and t100: "\<And>t. onProgress_throws onProgress 100 None t = None"
  shows "processVideo_using pf p e v model onProgress =
         processVideo_using pf p e v model (returning (onProgress \<noteq> None))"
proof (cases model)
  case None
  then show ?thesis by (simp add: processVideo_using_steps)
next
  case (Some m)
  let ?frames = "fst (extractFrames p e v)"
  let ?q = "returning (onProgress \<noteq> None)"
  let ?st = "frame_steps p e (\<lambda>f. pf e f m) onProgress (length ?frames) 0 initial_decoder ?frames"
  let ?stq = "frame_steps p e (\<lambda>f. pf e f m) ?q (length ?frames) 0 initial_decoder ?frames"
  note u = processVideo_using_steps [of pf p e v "Some m" onProgress]
  note uq = processVideo_using_steps [of pf p e v "Some m" ?q]
  have th': "snd (snd ?st) = None"
    by (rule th [OF Some])
  have st: "?st = ?stq"
    by (rule frame_steps_unthrown) (rule th')
  have thq: "snd (snd ?stq) = None"
    by simp
  have c: "onProgress_call onProgress a l t = onProgress_call ?q a l t" for a l t
    by (rule onProgress_call_returning)
  show ?thesis
  proof (cases "?frames = []")
    case True
    have "processVideo_using pf p e v (Some m) onProgress =
            (Inl (Error ''No frames extracted from video''),
             onProgress_call onProgress 10 None ''Extracting frames...''
               @ snd (extractFrames p e v))"
      unfolding u using t10 True by (simp add: Let_def)
    moreover have "processVideo_using pf p e v (Some m) ?q =
            (Inl (Error ''No frames extracted from video''),
             onProgress_call ?q 10 None ''Extracting frames...'' @ snd (extractFrames p e v))"
      unfolding uq using True by (simp add: Let_def)
    ultimately show ?thesis unfolding Some c by simp
  next
    case False
    have "processVideo_using pf p e v (Some m) onProgress =
            (Inr (translatedText (fst ?st)),
             onProgress_call onProgress 10 None ''Extracting frames...''
               @ snd (extractFrames p e v)
               @ onProgress_call onProgress 30 None ''Processing frames...''
               @ fst (snd ?st)
               @ onProgress_call onProgress 100 None (translatedText (fst ?st)))"
      unfolding u using t10 False t30 th' t100 by (simp add: Let_def)
    moreover have "processVideo_using pf p e v (Some m) ?q =
            (Inr (translatedText (fst ?stq)),
             onProgress_call ?q 10 None ''Extracting frames...''
               @ snd (extractFrames p e v)
               @ onProgress_call ?q 30 None ''Processing frames...''
               @ fst (snd ?stq)
               @ onProgress_call ?q 100 None (translatedText (fst ?stq)))"
      unfolding uq using False thq by (simp add: Let_def)
    ultimately show ?thesis unfolding Some c st by simp
  qed
qed

lemma processVideo_using_never_thrown:
  assumes "\<forall>a l t. onProgress_throws onProgress a l t = None"
  shows "processVideo_using pf p e v model onProgress =
         processVideo_using pf p e v model (returning (onProgress \<noteq> None))"
  by (rule processVideo_using_quiet) (simp_all add: assms frame_steps_never_thrown)

lemma processVideo_using_resolved:
  assumes ok: "fst (processVideo_using pf p e v model onProgress) = Inr t"
  shows "processVideo_using pf p e v model onProgress =
         processVideo_using pf p e v model (returning (onProgress \<noteq> None))"
proof (cases model)
  case None
  then show ?thesis by (simp add: processVideo_using_steps)
next
  case (Some m)
  let ?frames = "fst (extractFrames p e v)"
  let ?st = "frame_steps p e (\<lambda>f. pf e f m) onProgress (length ?frames) 0 initial_decoder ?frames"
  note u = processVideo_using_steps [of pf p e v "Some m" onProgress]
  have t10: "onProgress_throws onProgress 10 None ''Extracting frames...'' = None"
    using ok unfolding Some u by (cases "onProgress_throws onProgress 10 None ''Extracting frames...''") (simp_all add: Let_def)
  have ne: "?frames \<noteq> []"
    using ok t10 unfolding Some u by (cases "?frames = []") (simp_all add: Let_def)
  have t30: "onProgress_throws onProgress 30 None ''Processing frames...'' = None"
    using ok t10 ne unfolding Some u
    by (cases "onProgress_throws onProgress 30 None ''Processing frames...''") (simp_all add: Let_def)
  have th: "snd (snd ?st) = None"
    using ok t10 ne t30 unfolding Some u
    by (cases "snd (snd ?st)") (simp_all add: Let_def)
  have t100: "onProgress_throws onProgress 100 None (translatedText (fst ?st)) = None"
    using ok t10 ne t30 th unfolding Some u
    by (cases "onProgress_throws onProgress 100 None (translatedText (fst ?st))")
       (simp_all add: Let_def)
  have st: "?st = frame_steps p e (\<lambda>f. pf e f m) (returning (onProgress \<noteq> None))
                    (length ?frames) 0 initial_decoder ?frames"
    by (rule frame_steps_unthrown) (rule th)
  have c: "onProgress_call onProgress a l t
             = onProgress_call (returning (onProgress \<noteq> None)) a l t" for a l t
    by (rule onProgress_call_returning)
  have "processVideo_using pf p e v (Some m) onProgress =
          (Inr (translatedText (fst ?st)),
           onProgress_call onProgress 10 None ''Extracting frames...''
             @ snd (extractFrames p e v)
             @ onProgress_call onProgress 30 None ''Processing frames...''
             @ fst (snd ?st)
             @ onProgress_call onProgress 100 None (translatedText (fst ?st)))"
    unfolding u using t10 ne t30 th t100 by (simp add: Let_def)
  also have "\<dots> = processVideo_using pf p e v (Some m) (returning (onProgress \<noteq> None))"
    unfolding processVideo_using_steps [of pf p e v "Some m" "returning (onProgress \<noteq> None)"]
      c st
    using ne by (simp add: Let_def)
  finally show ?thesis unfolding Some .
qed

text \<open>
  A session rejects for a missing model, for missing frames, or with an error thrown by
  the callback at a call that is on the record.
\<close>

lemma processVideo_using_rejected:
  assumes rej: "fst (processVideo_using pf p e v model onProgress) = Inl err"
  shows "(model = None \<and> err = Error ''Model not loaded'')
       \<or> (model \<noteq> None \<and> fst (extractFrames p e v) = []
            \<and> err = Error ''No frames extracted from video'')
       \<or> (\<exists>a l t. onProgress_throws onProgress a l t = Some err
            \<and> Called_onProgress a l t
                 \<in> set (snd (processVideo_using pf p e v model onProgress)))"
proof (cases model)
  case None
  with rej show ?thesis by (simp add: processVideo_using_steps)
next
  case (Some m)
  let ?frames = "fst (extractFrames p e v)"
  let ?st = "frame_steps p e (\<lambda>f. pf e f m) onProgress (length ?frames) 0 initial_decoder ?frames"
  let ?thrown = "\<exists>a l t. onProgress_throws onProgress a l t = Some err
            \<and> Called_onProgress a l t
                 \<in> set (snd (processVideo_using pf p e v (Some m) onProgress))"
  note u = processVideo_using_steps [of pf p e v "Some m" onProgress]
  note rej' = rej [unfolded Some]
  show ?thesis
  proof (cases "onProgress_throws onProgress 10 None ''Extracting frames...''")
    case (Some err10)
    with rej' have e: "err10 = err" unfolding u by (simp add: Let_def)
    have "Called_onProgress 10 None ''Extracting frames...''
            \<in> set (snd (processVideo_using pf p e v (Some m) onProgress))"
      unfolding u using Some thrown_is_called [OF Some] by (simp add: Let_def)
    with Some e have ?thrown by blast
    then show ?thesis unfolding \<open>model = Some m\<close> by blast
  next
    case t10: None
    show ?thesis
    proof (cases "?frames = []")
      case True
      with rej' t10 have "err = Error ''No frames extracted from video''"
        unfolding u by (simp add: Let_def)
      with True show ?thesis unfolding \<open>model = Some m\<close> by simp
    next
      case ne: False
      show ?thesis
      proof (cases "onProgress_throws onProgress 30 None ''Processing frames...''")
        case (Some err30)
        with rej' t10 ne have e: "err30 = err" unfolding u by (simp add: Let_def)
        have "Called_onProgress 30 None ''Processing frames...''
                \<in> set (snd (processVideo_using pf p e v (Some m) onProgress))"
          unfolding u using Some t10 ne thrown_is_called [OF Some] by (simp add: Let_def)
        with Some e have ?thrown by blast
        then show ?thesis unfolding \<open>model = Some m\<close> by blast
      next
        case t30: None
        show ?thesis
        proof (cases "snd (snd ?st)")
          case (Some errl)
          with rej' t10 ne t30 have e: "errl = err" unfolding u by (simp add: Let_def)
          from frame_steps_thrown [OF Some] obtain a l t where
            a: "onProgress_throws onProgress a l t = Some errl"
            and b: "Called_onProgress a l t \<in> set (fst (snd ?st))"
            by blast
          have "Called_onProgress a l t
                  \<in> set (snd (processVideo_using pf p e v (Some m) onProgress))"
            unfolding u using Some t10 ne t30 b by (simp add: Let_def)
          with a e have ?thrown by blast
          then show ?thesis unfolding \<open>model = Some m\<close> by blast
        next
          case th: None
          show ?thesis
          proof (cases "onProgress_throws onProgress 100 None (translatedText (fst ?st))")
            case (Some err100)
            with rej' t10 ne t30 th have e: "err100 = err" unfolding u by (simp add: Let_def)
            have "Called_onProgress 100 None (translatedText (fst ?st))
                    \<in> set (snd (processVideo_using pf p e v (Some m) onProgress))"
              unfolding u using Some t10 ne t30 th thrown_is_called [OF Some]
              by (simp add: Let_def)
            with Some e have ?thrown by blast
            then show ?thesis unfolding \<open>model = Some m\<close> by blast
          next
            case None
            with rej' t10 ne t30 th show ?thesis unfolding u by (simp add: Let_def)
          qed
        qed
      qed
    qed
  qed
qed

lemma returning_simps [simp]: "returning False = None" "returning True \<noteq> None"
  by (simp_all add: returning_def)

lemma classified_processVideo_using:
  "length (classified (snd (processVideo_using pf p e v model onProgress)))
     \<le> length (fst (extractFrames p e v))"
  by (simp add: processVideo_using_steps Let_def extractFrames_trace
        classified_frame_steps_length split: option.split)

text \<open>The shipped method: the loop makes no progress call and is never left early.\<close>

lemma processVideo_shipped:
  "processVideo p e v model onProgress =
     (case model of
        None \<Rightarrow> (Inl (Error ''Model not loaded''), [])
      | Some m \<Rightarrow>
          (let tr0 = onProgress_call onProgress 10 None ''Extracting frames...'';
               frames = fst (extractFrames p e v);
               tr1 = snd (extractFrames p e v);
               tr2 = onProgress_call onProgress 30 None ''Processing frames...'';
               tr3 = concat (map (\<lambda>f. [Called_processFrame f None,
                                        Called_deleteAsync f (deleteAsync e f)]) frames);
               tr4 = onProgress_call onProgress 100 None []
           in case onProgress_throws onProgress 10 None ''Extracting frames...'' of
                Some err \<Rightarrow> (Inl err, tr0)
              | None \<Rightarrow>
                  if frames = [] then (Inl (Error ''No frames extracted from video''), tr0 @ tr1)
                  else
                    (case onProgress_throws onProgress 30 None ''Processing frames...'' of
                       Some err \<Rightarrow> (Inl err, tr0 @ tr1 @ tr2)
                     | None \<Rightarrow>
                         (case onProgress_throws onProgress 100 None [] of
                            Some err \<Rightarrow> (Inl err, tr0 @ tr1 @ tr2 @ tr3 @ tr4)
                          | None \<Rightarrow> (Inr [], tr0 @ tr1 @ tr2 @ tr3 @ tr4)))))"
proof -
  have "frame_steps p e (\<lambda>f. processFrame e f m) onProgress n 0 initial_decoder fs =
          (initial_decoder,
           concat (map (\<lambda>f. [Called_processFrame f None, Called_deleteAsync f (deleteAsync e f)]) fs),
           None)" for m :: 'a and n fs
    by (rule frame_steps_all_None) simp
  then show ?thesis
    unfolding processVideo_def processVideo_using_steps
    by (simp add: Let_def initial_decoder_def split: option.split)
qed

lemma extractFrames_deleteAsync [simp]:
  "fst (extractFrames p (e\<lparr>deleteAsync := d\<rparr>) v) = fst (extractFrames p e v)"
  by (simp add: fst_extractFrames)


text \<open>The two sessions with a callback that throws.\<close>

lemma processVideo_throws_at_30:
  "processVideo getSignLanguageProcessor two_frame_env ''video.mp4'' (Some ())
      (Some throws_at_30) =
     (Inl (Error ''callback failed''),
      [Called_onProgress 10 None ''Extracting frames...'',
       Called_getThumbnailAsync ''video.mp4'' 0 (Some ''frame0.jpg''),
       Called_getThumbnailAsync ''video.mp4'' 33 (Some ''frame1.jpg''),
       Called_getThumbnailAsync ''video.mp4'' 66 None,
       Called_onProgress 30 None ''Processing frames...''])"
  unfolding processVideo_shipped extractFrames_two_frames
  by (simp add: onProgress_call_def onProgress_throws_def throws_at_30_def)


text \<open>
  In every session, whatever its outcome, the frame files are all acquired before any
  frame is classified or deleted.
\<close>

lemma processVideo_using_acquired_first:
  "\<exists>pre rest. snd (processVideo_using pf p e v model onProgress) = pre @ rest
      \<and> classified pre = [] \<and> deleted pre = [] \<and> acquired rest = []"
proof (cases model)
  case None
  then show ?thesis by (simp add: processVideo_using_steps)
next
  case (Some m)
  let ?frames = "fst (extractFrames p e v)"
  let ?st = "frame_steps p e (\<lambda>f. pf e f m) onProgress (length ?frames) 0 initial_decoder ?frames"
  let ?t10 = "onProgress_throws onProgress 10 None ''Extracting frames...''"
  let ?t30 = "onProgress_throws onProgress 30 None ''Processing frames...''"
  let ?pre = "onProgress_call onProgress 10 None ''Extracting frames...''
                @ (case ?t10 of Some err \<Rightarrow> [] | None \<Rightarrow> snd (extractFrames p e v))"
  let ?rest = "case ?t10 of
                 Some err \<Rightarrow> []
               | None \<Rightarrow>
                   if ?frames = [] then []
                   else onProgress_call onProgress 30 None ''Processing frames...''
                     @ (case ?t30 of
                          Some err \<Rightarrow> []
                        | None \<Rightarrow> fst (snd ?st)
                            @ (case snd (snd ?st) of
                                 Some err \<Rightarrow> []
                               | None \<Rightarrow> onProgress_call onProgress 100 None
                                           (translatedText (fst ?st))))"
  have a: "snd (processVideo_using pf p e v model onProgress) = ?pre @ ?rest"
    unfolding Some processVideo_using_steps
    by (simp add: Let_def split: option.split)
  have b: "classified ?pre = []" "deleted ?pre = []"
    by (simp_all add: extractFrames_trace split: option.split)
  have c: "acquired ?rest = []"
    by (simp add: acquired_frame_steps split: option.split)
  from a b c show ?thesis by blast
qed

section \<open>The claims\<close>

text \<open>
  C1. The claim: from a fresh state, \<open>k\<close> consecutive frames of one letter with
  confidence at or above the threshold commit the letter \<open>k div CONSISTENCY_FRAMES\<close>
  times, so a first time as soon as \<open>k\<close> reaches \<open>CONSISTENCY_FRAMES\<close>; the
  repository's implementation guide says the same of the loop (``same letter must appear
  for 15 consecutive frames''). The loop sets the counter to 0 on the first frame of a
  letter, so it commits \<open>(k - 1) div CONSISTENCY_FRAMES\<close> times
  (\<open>decode_single_label\<close>). With the shipped constants, 15 frames of \<open>A\<close> at
  confidence 0.9 commit nothing, 16 commit once, 30 commit once, not twice, and the
  second commit comes 15 frames after the first, at frame 31. The callback, if one is
  given, is one that returns.
\<close>

theorem C1_first_commit_needs_one_more_frame:
  "translatedText (fst (processVideo_loop getSignLanguageProcessor e stub_classifier (returning given)
      (replicate 15 ''A'') 0 initial_decoder [])) = []
   \<and> translatedText (fst (processVideo_loop getSignLanguageProcessor e stub_classifier (returning given)
      (replicate 16 ''A'') 0 initial_decoder [])) = ''A''
   \<and> translatedText (fst (processVideo_loop getSignLanguageProcessor e stub_classifier (returning given)
      (replicate 30 ''A'') 0 initial_decoder [])) = ''A''
   \<and> translatedText (fst (processVideo_loop getSignLanguageProcessor e stub_classifier (returning given)
      (replicate 31 ''A'') 0 initial_decoder [])) = ''AA''
   \<and> CONFIDENCE_THRESHOLD getSignLanguageProcessor \<le> confidence (the (stub_classifier ''A''))
   \<and> CONSISTENCY_FRAMES getSignLanguageProcessor = 15"
proof -
  have R: "0 < CONSISTENCY_FRAMES getSignLanguageProcessor"
    and R15: "CONSISTENCY_FRAMES getSignLanguageProcessor = 15"
    by (simp_all add: getSignLanguageProcessor_def)
  have run: "translatedText (fst (processVideo_loop getSignLanguageProcessor e stub_classifier
      (returning given) (replicate k ''A'') 0 initial_decoder [])) = concat (replicate ((k - 1) div 15) ''A'')"
    for k
    using decode_single_label [OF R, of "''A''" "replicate k \<lparr>letter = ''A'', confidence = 9 / 10\<rparr>"]
    by (simp add: fst_processVideo_loop stub_classifier_def R15)
  have "translatedText (fst (processVideo_loop getSignLanguageProcessor e stub_classifier (returning given)
      (replicate 15 ''A'') 0 initial_decoder [])) = []"
    unfolding run by simp
  moreover have "translatedText (fst (processVideo_loop getSignLanguageProcessor e
      stub_classifier (returning given) (replicate 16 ''A'') 0 initial_decoder [])) = ''A''"
    unfolding run by simp
  moreover have "translatedText (fst (processVideo_loop getSignLanguageProcessor e
      stub_classifier (returning given) (replicate 30 ''A'') 0 initial_decoder [])) = ''A''"
    unfolding run by simp
  moreover have "translatedText (fst (processVideo_loop getSignLanguageProcessor e
      stub_classifier (returning given) (replicate 31 ''A'') 0 initial_decoder [])) = ''AA''"
    unfolding run by (simp add: numeral_2_eq_2)
  moreover have "CONFIDENCE_THRESHOLD getSignLanguageProcessor
      \<le> confidence (the (stub_classifier ''A''))"
    by (simp add: getSignLanguageProcessor_def stub_classifier_def)
  ultimately show ?thesis using R15 by blast
qed

text \<open>
  C2, as stated, fails. The claim: a frame with no prediction sets the counter back to 0.
  After eight frames of \<open>A\<close> the counter is 7, and it is still 7 after a frame with
  no prediction; eight more frames of \<open>A\<close> then commit the letter, which a counter set
  back to 0 would not.
\<close>

theorem C2_null_frame_keeps_the_run:
  "framesConsistent (fst (processVideo_loop getSignLanguageProcessor two_frame_env
      stub_classifier (returning True) (replicate 8 ''A'' @ [''-'']) 0 initial_decoder [])) = 7
   \<and> translatedText (fst (processVideo_loop getSignLanguageProcessor two_frame_env
      stub_classifier (returning True) (replicate 8 ''A'' @ [''-''] @ replicate 8 ''A'') 0
      initial_decoder [])) = ''A''"
  by (simp add: fst_processVideo_loop stub_classifier_def observe_def consistency_update_def
        getSignLanguageProcessor_def initial_decoder_def Let_def eval_nat_numeral)

text \<open>
  C2, amended. A frame for which \<open>processFrame\<close> gives \<open>null\<close> is skipped: the
  text, the last letter and the counter stay as they are, no progress call is made and
  nothing is thrown, whatever the callback. So, when no progress call throws, the frames
  with no prediction can be removed from the input without changing what the loop ends
  with.
\<close>

theorem C2_null_frame_is_skipped:
  "frame_result p onProgress i n s None = (s, [], None)
   \<and> fst (processVideo_loop p e pf (returning given) frames 0 s tr) =
       fst (processVideo_loop p e pf (returning given) (filter (\<lambda>f. pf f \<noteq> None) frames) 0 s tr)
   \<and> ((\<forall>a l t. onProgress_throws onProgress a l t = None) \<longrightarrow>
        fst (processVideo_loop p e pf onProgress frames 0 s tr) =
          fst (processVideo_loop p e pf onProgress (filter (\<lambda>f. pf f \<noteq> None) frames) 0 s tr))"
proof -
  have "map pf (filter (\<lambda>f. pf f \<noteq> None) frames) = filter (\<lambda>r. r \<noteq> None) (map pf frames)"
    by (simp add: filter_map comp_def)
  then have d: "decode p s (map pf (filter (\<lambda>f. pf f \<noteq> None) frames)) = decode p s (map pf frames)"
    by (simp only: decode_filter)
  have g: "fst (processVideo_loop p e pf onProgress fs 0 s tr) = decode p s (map pf fs)"
    if nt: "\<forall>a l t. onProgress_throws onProgress a l t = None" for fs
    by (simp add: processVideo_loop_steps fst_frame_steps [OF frame_steps_never_thrown [OF nt]])
  from d g show ?thesis
    by (simp add: fst_processVideo_loop frame_result_def)
qed

text \<open>C2, at a concrete input: the run of \<open>A\<close> with a gap ends as the run without it.\<close>

theorem C2_null_frame_is_skipped_witness:
  "fst (processVideo_loop getSignLanguageProcessor two_frame_env stub_classifier (returning True)
         (replicate 8 ''A'' @ [''-''] @ replicate 8 ''A'') 0 initial_decoder []) =
   fst (processVideo_loop getSignLanguageProcessor two_frame_env stub_classifier (returning True)
         (replicate 16 ''A'') 0 initial_decoder [])"
  using C2_null_frame_is_skipped [of getSignLanguageProcessor None 0 1 initial_decoder
      two_frame_env stub_classifier True "replicate 8 ''A'' @ [''-''] @ replicate 8 ''A''" "[]"]
  by (simp add: stub_classifier_def replicate_add [symmetric])

text \<open>
  C3. The claim: a frame whose letter differs from the last one sets the counter to 1,
  so that with 3 frames to commit the nine frames \<open>A A A B B B B B B\<close> give
  \<open>ABB\<close>. The loop sets the counter to 0 there, and the nine frames give \<open>B\<close>: the
  three frames of \<open>A\<close> commit nothing, and of the six frames of \<open>B\<close> only the
  fourth commits.
\<close>

theorem C3_scenario_yields_B:
  "translatedText (fst (processVideo_loop scenario_processor e stub_classifier (returning given)
      [''A'', ''A'', ''A'', ''B'', ''B'', ''B'', ''B'', ''B'', ''B''] 0 initial_decoder [])) = ''B''
   \<and> consistency_update scenario_processor
        \<lparr>translatedText = t, lastPredictedLetter = ''A'', framesConsistent = 2\<rparr>
        \<lparr>letter = ''B'', confidence = 9 / 10\<rparr>
      = \<lparr>translatedText = t, lastPredictedLetter = ''B'', framesConsistent = 0\<rparr>"
  by (simp add: fst_processVideo_loop stub_classifier_def observe_def consistency_update_def
        scenario_processor_def initial_decoder_def Let_def)

text \<open>
  C4. When \<open>extractFrames\<close> gives no frame, \<open>processVideo\<close> with a model rejects
  with \<open>No frames extracted from video\<close>, having made only the first progress call and
  the thumbnail requests (the first progress call comes before the extraction, and the
  frames are asked for only if it returns). Whatever the model and the callback, no frame
  is given to \<open>processFrame\<close> and the promise does not resolve with a text.
\<close>

theorem C4_no_frames_is_an_error:
  "fst (extractFrames p e v) = [] \<Longrightarrow>
     processVideo_using pf p e v (Some m) (returning given) =
       (Inl (Error ''No frames extracted from video''),
        onProgress_call (returning given) 10 None ''Extracting frames...''
          @ snd (extractFrames p e v))
     \<and> classified (snd (processVideo_using pf p e v model onProgress)) = []
     \<and> (\<forall>t. fst (processVideo_using pf p e v model onProgress) \<noteq> Inr t)
     \<and> (onProgress_throws onProgress 10 None ''Extracting frames...'' = None \<longrightarrow>
          fst (processVideo_using pf p e v (Some m) onProgress)
            = Inl (Error ''No frames extracted from video''))"
proof -
  assume empty: "fst (extractFrames p e v) = []"
  have a: "processVideo_using pf p e v (Some m) (returning given) =
       (Inl (Error ''No frames extracted from video''),
        onProgress_call (returning given) 10 None ''Extracting frames...''
          @ snd (extractFrames p e v))"
    using empty by (simp add: processVideo_using_cases)
  have b: "classified (snd (processVideo_using pf p e v model onProgress)) = []"
    using classified_processVideo_using [of pf p e v model onProgress] empty by simp
  have c: "fst (processVideo_using pf p e v model onProgress) \<noteq> Inr t" for t
    using empty by (simp add: processVideo_using_steps Let_def split: option.split)
  have d: "fst (processVideo_using pf p e v (Some m) onProgress)
            = Inl (Error ''No frames extracted from video'')"
    if "onProgress_throws onProgress 10 None ''Extracting frames...'' = None"
    using empty that by (simp add: processVideo_using_steps Let_def)
  from a b c d show ?thesis by simp
qed

text \<open>C4, at a concrete input: a video whose first thumbnail request fails.\<close>

theorem C4_no_frames_is_an_error_witness:
  "processVideo getSignLanguageProcessor no_frame_env ''video.mp4'' (Some ()) (returning True) =
     (Inl (Error ''No frames extracted from video''),
      [Called_onProgress 10 None ''Extracting frames...'',
       Called_getThumbnailAsync ''video.mp4'' 0 None])"
  using C4_no_frames_is_an_error [of getSignLanguageProcessor no_frame_env "''video.mp4''"
      processFrame "()" True "Some ()" None]
  by (simp add: extractFrames_no_frame_env processVideo_def)

text \<open>
  C5, as stated, fails. The claim: only a missing model and missing frames reject the
  promise. Every progress call is inside the \<open>try\<close> whose \<open>catch\<close> throws the
  error again, so an error thrown by the callback rejects the promise too: with a model
  and two frames extracted, a callback that throws at the second progress call gives a
  third rejection.
\<close>

theorem C5_callback_error_rejects:
  "processVideo getSignLanguageProcessor two_frame_env ''video.mp4'' (Some ())
      (Some throws_at_30) =
     (Inl (Error ''callback failed''),
      [Called_onProgress 10 None ''Extracting frames...'',
       Called_getThumbnailAsync ''video.mp4'' 0 (Some ''frame0.jpg''),
       Called_getThumbnailAsync ''video.mp4'' 33 (Some ''frame1.jpg''),
       Called_getThumbnailAsync ''video.mp4'' 66 None,
       Called_onProgress 30 None ''Processing frames...''])
   \<and> fst (extractFrames getSignLanguageProcessor two_frame_env ''video.mp4'')
       = [''frame0.jpg'', ''frame1.jpg'']"
  by (simp add: processVideo_throws_at_30 extractFrames_two_frames)

text \<open>
  C5, amended. \<open>processVideo\<close> rejects for a missing model (checked first, before any
  call is made), for missing frames, or with an error that the caller's callback threw
  at a progress call; when no progress call throws, the first two are the only
  rejections. A read of the frame file that throws makes \<open>processFrame\<close> give
  \<open>null\<close>, and what the shipped classifier gives changes nothing and throws nothing.
  Whatever the classifier and the callback, the loop only appends to the text it has;
  when no progress call throws it is not left early and gives every frame to the
  classifier.
\<close>

theorem C5_only_preconditions_or_callback_fail:
  "(fst (processVideo_using pf p e v model onProgress) = Inl err \<longrightarrow>
      (model = None \<and> err = Error ''Model not loaded'')
      \<or> (model \<noteq> None \<and> fst (extractFrames p e v) = []
           \<and> err = Error ''No frames extracted from video'')
      \<or> (\<exists>a l t. onProgress_throws onProgress a l t = Some err
           \<and> Called_onProgress a l t
                \<in> set (snd (processVideo_using pf p e v model onProgress))))
   \<and> ((\<forall>a l t. onProgress_throws onProgress a l t = None) \<longrightarrow>
        (fst (processVideo_using pf p e v model onProgress) = Inl err \<longleftrightarrow>
           (model = None \<and> err = Error ''Model not loaded'') \<or>
           (model \<noteq> None \<and> fst (extractFrames p e v) = []
              \<and> err = Error ''No frames extracted from video'')))
   \<and> processVideo_using pf p e v None onProgress = (Inl (Error ''Model not loaded''), [])
   \<and> (readAsStringAsync e f = None \<longrightarrow> processFrame e f m = None)
   \<and> frame_result p onProgress i n s (processFrame e f m) = (s, [], None)
   \<and> (\<exists>w. translatedText (fst (processVideo_loop p e pf' onProgress frames 0 s tr))
            = translatedText s @ w)
   \<and> ((\<forall>a l t. onProgress_throws onProgress a l t = None) \<longrightarrow>
        snd (snd (processVideo_loop p e pf' onProgress frames 0 s [])) = None
        \<and> classified (fst (snd (processVideo_loop p e pf' onProgress frames 0 s []))) = frames)"
proof -
  let ?pre = "(model = None \<and> err = Error ''Model not loaded'') \<or>
           (model \<noteq> None \<and> fst (extractFrames p e v) = []
              \<and> err = Error ''No frames extracted from video'')"
  have a: "fst (processVideo_using pf p e v model onProgress) = Inl err \<longrightarrow>
      (model = None \<and> err = Error ''Model not loaded'')
      \<or> (model \<noteq> None \<and> fst (extractFrames p e v) = []
           \<and> err = Error ''No frames extracted from video'')
      \<or> (\<exists>a l t. onProgress_throws onProgress a l t = Some err
           \<and> Called_onProgress a l t
                \<in> set (snd (processVideo_using pf p e v model onProgress)))"
    using processVideo_using_rejected [of pf p e v model onProgress err] by (rule impI)
  have q: "fst (processVideo_using pf p e v model (returning given)) = Inl err \<longleftrightarrow> ?pre"
    for given
    by (cases model) (auto simp add: processVideo_using_cases)
  have b: "fst (processVideo_using pf p e v model onProgress) = Inl err \<longleftrightarrow> ?pre"
    if "\<forall>a l t. onProgress_throws onProgress a l t = None"
    unfolding processVideo_using_never_thrown [OF that] by (rule q)
  have c: "processVideo_using pf p e v None onProgress = (Inl (Error ''Model not loaded''), [])"
    by (simp add: processVideo_using_steps)
  have d: "frame_result p onProgress i n s (processFrame e f m) = (s, [], None)"
    by (simp add: frame_result_def)
  have g: "\<exists>w. translatedText (fst (processVideo_loop p e pf' onProgress frames 0 s tr))
            = translatedText s @ w"
    by (simp add: processVideo_loop_steps frame_steps_grows)
  have h: "snd (snd (processVideo_loop p e pf' onProgress frames 0 s [])) = None
        \<and> classified (fst (snd (processVideo_loop p e pf' onProgress frames 0 s []))) = frames"
    if nt: "\<forall>a l t. onProgress_throws onProgress a l t = None"
  proof -
    have th: "snd (snd (frame_steps p e pf' onProgress (length frames) 0 s frames)) = None"
      by (rule frame_steps_never_thrown [OF nt])
    have "classified (fst (snd (frame_steps p e pf' onProgress (length frames) 0 s frames)))
            = frames"
      unfolding frame_steps_unthrown [OF th] by (rule classified_frame_steps)
    with th show ?thesis
      by (simp add: calls_processVideo_loop thrown_processVideo_loop)
  qed
  from a b c d g h show ?thesis by simp
qed

text \<open>
  C5, at concrete inputs: the file of the second frame cannot be read, and with a
  callback that returns the session does not reject; without a model it rejects with
  \<open>Model not loaded\<close>; with the callback that throws it rejects with the callback's
  error.
\<close>

theorem C5_only_preconditions_or_callback_fail_witness:
  "readAsStringAsync two_frame_env ''frame1.jpg'' = None
   \<and> processFrame two_frame_env ''frame1.jpg'' () = None
   \<and> fst (processVideo getSignLanguageProcessor two_frame_env ''video.mp4'' (Some ())
        (returning True)) \<noteq> Inl (Error ''No frames extracted from video'')
   \<and> fst (processVideo getSignLanguageProcessor two_frame_env ''video.mp4'' (Some ())
        (returning True)) \<noteq> Inl (Error ''Model not loaded'')
   \<and> fst (processVideo getSignLanguageProcessor two_frame_env ''video.mp4'' None
        (returning True)) = Inl (Error ''Model not loaded'')
   \<and> fst (processVideo getSignLanguageProcessor two_frame_env ''video.mp4'' (Some ())
        (Some throws_at_30)) = Inl (Error ''callback failed'')
   \<and> (\<exists>a l t. throws_at_30 a l t = Some (Error ''callback failed''))"
proof -
  have r: "readAsStringAsync two_frame_env ''frame1.jpg'' = None"
    by (simp add: two_frame_env_def)
  have n: "fst (extractFrames getSignLanguageProcessor two_frame_env ''video.mp4'') \<noteq> []"
    by (simp add: extractFrames_two_frames)
  have nt: "\<forall>a l t. onProgress_throws (returning True) a l t = None"
    by simp
  have rej: "fst (processVideo_using processFrame getSignLanguageProcessor two_frame_env
      ''video.mp4'' (Some ()) (Some throws_at_30)) = Inl (Error ''callback failed'')"
    using processVideo_throws_at_30 by (simp add: processVideo_def)
  note c = C5_only_preconditions_or_callback_fail [where pf = processFrame
      and p = getSignLanguageProcessor and e = two_frame_env and v = "''video.mp4''"
      and f = "''frame1.jpg''" and m = "()" and i = 0 and n = 1 and s = initial_decoder
      and pf' = stub_classifier and frames = "[]" and tr = "[]"]
  note c1 = c [where model = "Some ()" and onProgress = "returning True"
      and err = "Error ''No frames extracted from video''"]
  note c2 = c [where model = "Some ()" and onProgress = "returning True"
      and err = "Error ''Model not loaded''"]
  note c3 = c [where model = None and onProgress = "returning True"
      and err = "Error ''Model not loaded''"]
  note c4 = c [where model = "Some ()" and onProgress = "Some throws_at_30"
      and err = "Error ''callback failed''"]
  have w1: "processFrame two_frame_env ''frame1.jpg'' () = None"
    by (rule c1 [THEN conjunct2, THEN conjunct2, THEN conjunct2, THEN conjunct1, THEN mp, OF r])
  have w2: "fst (processVideo getSignLanguageProcessor two_frame_env ''video.mp4'' (Some ())
        (returning True)) \<noteq> Inl (Error ''No frames extracted from video'')"
    unfolding processVideo_def
    using c1 [THEN conjunct2, THEN conjunct1, THEN mp, OF nt] n
    by simp
  have w3: "fst (processVideo getSignLanguageProcessor two_frame_env ''video.mp4'' (Some ())
        (returning True)) \<noteq> Inl (Error ''Model not loaded'')"
    unfolding processVideo_def
    using c2 [THEN conjunct2, THEN conjunct1, THEN mp, OF nt]
    by simp
  have w4: "fst (processVideo getSignLanguageProcessor two_frame_env ''video.mp4'' None
        (returning True)) = Inl (Error ''Model not loaded'')"
    unfolding processVideo_def
    using c3 [THEN conjunct2, THEN conjunct1, THEN mp, OF nt]
    by simp
  have w5: "\<exists>a l t. throws_at_30 a l t = Some (Error ''callback failed'')"
    using c4 [THEN conjunct1, THEN mp, OF rej] n
    by (auto simp add: onProgress_throws_def)
  from r w1 w2 w3 w4 w5 rej show ?thesis
    by (simp add: processVideo_def)
qed

text \<open>
  C6, as stated, fails. The claim: \<open>onProgress\<close> is called at least once for every
  frame processed. The call is inside \<open>if (result)\<close>; with the shipped classifier a
  session of two frames reports 10, 30 and 100 only, and the frame loop makes no call.
\<close>

theorem C6_no_progress_for_null_results:
  "percents (snd (processVideo getSignLanguageProcessor two_frame_env ''video.mp4''
      (Some ()) (returning True))) = [10, 30, 100]
   \<and> classified (snd (processVideo getSignLanguageProcessor two_frame_env ''video.mp4''
      (Some ()) (returning True))) = [''frame0.jpg'', ''frame1.jpg'']
   \<and> percents (fst (snd (processVideo_loop getSignLanguageProcessor two_frame_env
      (\<lambda>frameUri. processFrame two_frame_env frameUri ()) (returning True)
      [''frame0.jpg'', ''frame1.jpg''] 0 initial_decoder []))) = []"
  unfolding processVideo_shipped extractFrames_two_frames calls_processVideo_loop
  by (simp add: frame_steps_Cons_returning del: frame_steps.simps(2))

text \<open>
  C6, amended. In a run that resolves, with a callback, \<open>onProgress\<close> is called with
  10 and 30, then once for every frame whose result is not \<open>null\<close>, with
  \<open>30 + i * 60 div n\<close> for frame \<open>i\<close> of \<open>n\<close> (a value from 30 to 89), and last
  with 100. The percentages never decrease, and 100 is passed once, at the end.
  Without a callback no call is made.
\<close>

theorem C6_progress_sequence:
  assumes ok: "fst (processVideo_using pf p e v (Some m) (Some cb)) = Inr t"
    and frames: "frames = fst (extractFrames p e v)"
  shows "percents (snd (processVideo_using pf p e v (Some m) (Some cb))) =
           [10, 30]
           @ map (\<lambda>i. 30 + (i * 60) div length frames)
               (filter (\<lambda>i. pf e (frames ! i) m \<noteq> None) [0..<length frames])
           @ [100]
         \<and> sorted (percents (snd (processVideo_using pf p e v (Some m) (Some cb))))
         \<and> (\<forall>i<length frames. 30 \<le> 30 + (i * 60) div length frames
                \<and> 30 + (i * 60) div length frames \<le> 89)
         \<and> percents (snd (processVideo_using pf p e v (Some m) None)) = []"
proof -
  let ?steps = "fst (snd (frame_steps p e (\<lambda>f. pf e f m) (returning True) (length frames) 0
                    initial_decoder frames))"
  have same: "processVideo_using pf p e v (Some m) (Some cb) =
              processVideo_using pf p e v (Some m) (returning True)"
    using processVideo_using_resolved [OF ok] by simp
  from ok have ne: "fst (extractFrames p e v) \<noteq> []"
    unfolding same by (auto simp add: processVideo_using_cases split: if_splits)
  have all: "percents (snd (processVideo_using pf p e v (Some m) (Some cb))) =
      [10, 30] @ percents ?steps @ [100]"
    unfolding same using ne by (simp add: processVideo_using_cases extractFrames_trace frames)
  have exact: "percents ?steps =
      map (\<lambda>i. 30 + (i * 60) div length frames)
        (filter (\<lambda>i. pf e (frames ! i) m \<noteq> None) [0..<length frames])"
    using percents_frame_steps_exact [of p e "\<lambda>f. pf e f m" "length frames" 0 initial_decoder frames]
    by simp
  have bound: "30 \<le> x \<and> x \<le> 89" if "x \<in> set (percents ?steps)" for x
    using that unfolding exact by (auto simp: last_frame_percent)
  have "sorted (percents ?steps)"
    by (rule percents_frame_steps_sorted)
  then have "sorted ([10, 30] @ percents ?steps @ [100])"
    using bound by (fastforce simp add: sorted_append)
  moreover have "percents (snd (processVideo_using pf p e v (Some m) None)) = []"
    using ne processVideo_using_cases [of pf p e v "Some m" False]
    by (simp add: extractFrames_trace percents_frame_steps_False)
  ultimately show ?thesis
    unfolding all exact by (simp add: last_frame_percent)
qed

text \<open>
  C6, at a concrete input: two frames, both with a prediction, report 10, 30, 30, 60
  and 100.
\<close>

theorem C6_progress_sequence_witness:
  "fst (processVideo_using (\<lambda>e frameUri m. stub_classifier frameUri) getSignLanguageProcessor
          two_frame_env ''video.mp4'' (Some ()) (returning True)) = Inr []
   \<and> percents (snd (processVideo_using (\<lambda>e frameUri m. stub_classifier frameUri)
          getSignLanguageProcessor two_frame_env ''video.mp4'' (Some ()) (returning True)))
       = [10, 30, 30, 60, 100]"
proof -
  have fr: "[''frame0.jpg'', ''frame1.jpg'']
              = fst (extractFrames getSignLanguageProcessor two_frame_env ''video.mp4'')"
    by (simp add: extractFrames_two_frames)
  have ok: "fst (processVideo_using (\<lambda>e frameUri m. stub_classifier frameUri)
          getSignLanguageProcessor two_frame_env ''video.mp4'' (Some ()) (returning True))
            = Inr []"
    unfolding processVideo_using_cases extractFrames_two_frames
    by (simp add: stub_classifier_def observe_def consistency_update_def
          getSignLanguageProcessor_def initial_decoder_def Let_def)
  have r: "returning True = Some (\<lambda>progress currentLetter currentText. None)"
    by (simp add: returning_def)
  have u: "[0..<2] = [0, Suc 0]"
    by (simp add: numeral_2_eq_2)
  show ?thesis
    using ok C6_progress_sequence [OF ok [unfolded r] fr]
    unfolding r
    by (simp add: stub_classifier_def numeral_2_eq_2 [symmetric] u)
qed

text \<open>
  C7, as stated, fails. The claim: a cancellation requested after frame \<open>i\<close> ends the
  session as cancelled, and no frame after \<open>i\<close> is acquired. \<open>processVideo\<close> takes
  no cancellation request and has no such outcome. In a session of two frames the file of
  the second frame is acquired before the first frame is classified, both frames are
  classified, and the promise resolves.
\<close>

theorem C7_session_runs_to_completion:
  "processVideo getSignLanguageProcessor two_frame_env ''video.mp4'' (Some ()) (returning True) =
     (Inr [],
      [Called_onProgress 10 None ''Extracting frames...'',
       Called_getThumbnailAsync ''video.mp4'' 0 (Some ''frame0.jpg''),
       Called_getThumbnailAsync ''video.mp4'' 33 (Some ''frame1.jpg''),
       Called_getThumbnailAsync ''video.mp4'' 66 None,
       Called_onProgress 30 None ''Processing frames...'',
       Called_processFrame ''frame0.jpg'' None,
       Called_deleteAsync ''frame0.jpg'' False,
       Called_processFrame ''frame1.jpg'' None,
       Called_deleteAsync ''frame1.jpg'' True,
       Called_onProgress 100 None []])"
  unfolding processVideo_shipped extractFrames_two_frames
  by (simp add: two_frame_env_def)

text \<open>
  C7, amended. \<open>processVideo\<close> takes no cancellation request: a session rejects, with
  one of the two errors or with an error thrown by the callback, or it resolves with a
  text; there is no other outcome. When it resolves, the text is that of the loop over
  all the frames, and every frame was given to \<open>processFrame\<close> and to
  \<open>deleteAsync\<close>, in order; it does resolve when a model is given, frames were
  extracted and no progress call throws. All frame files are acquired by
  \<open>extractFrames\<close> before the loop starts: the loop acquires none, whatever the
  callback, and \<open>extractFrames\<close> classifies and deletes none, so that in every
  session, whatever its outcome, the acquisitions all come before the first
  classification.
\<close>

theorem C7_no_cancellation:
  "(fst (processVideo_using pf p e v model onProgress) = Inl (Error ''Model not loaded'')
      \<or> fst (processVideo_using pf p e v model onProgress)
           = Inl (Error ''No frames extracted from video'')
      \<or> (\<exists>a l t err. onProgress_throws onProgress a l t = Some err
            \<and> fst (processVideo_using pf p e v model onProgress) = Inl err)
      \<or> (\<exists>t. fst (processVideo_using pf p e v model onProgress) = Inr t))
   \<and> (fst (processVideo_using pf p e v (Some m) onProgress) = Inr t \<longrightarrow>
        t = translatedText (fst (processVideo_loop p e (\<lambda>frameUri. pf e frameUri m) onProgress
               (fst (extractFrames p e v)) 0 initial_decoder []))
        \<and> (\<exists>rest. snd (processVideo_using pf p e v (Some m) onProgress) =
                onProgress_call onProgress 10 None ''Extracting frames...''
                  @ snd (extractFrames p e v) @ rest
              \<and> acquired rest = []
              \<and> classified rest = fst (extractFrames p e v)
              \<and> deleted rest = fst (extractFrames p e v)))
   \<and> ((\<forall>a l t. onProgress_throws onProgress a l t = None)
          \<and> fst (extractFrames p e v) \<noteq> [] \<longrightarrow>
        (\<exists>t. fst (processVideo_using pf p e v (Some m) onProgress) = Inr t))
   \<and> acquired (fst (snd (processVideo_loop p e pf' onProgress frames 0 s []))) = []
   \<and> acquired (snd (extractFrames p e v)) = fst (extractFrames p e v)
   \<and> classified (snd (extractFrames p e v)) = []
   \<and> deleted (snd (extractFrames p e v)) = []
   \<and> (\<exists>pre rest. snd (processVideo_using pf p e v model onProgress) = pre @ rest
          \<and> classified pre = [] \<and> deleted pre = [] \<and> acquired rest = [])"
proof -
  let ?run = "processVideo_using pf p e v model onProgress"
  let ?frames = "fst (extractFrames p e v)"
  have out: "fst ?run = Inl (Error ''Model not loaded'')
      \<or> fst ?run = Inl (Error ''No frames extracted from video'')
      \<or> (\<exists>a l t err. onProgress_throws onProgress a l t = Some err \<and> fst ?run = Inl err)
      \<or> (\<exists>t. fst ?run = Inr t)"
  proof (cases "fst ?run")
    case (Inr t)
    then show ?thesis by simp
  next
    case (Inl err)
    from processVideo_using_rejected [OF Inl] consider
      "err = Error ''Model not loaded''" | "err = Error ''No frames extracted from video''"
      | a l t where "onProgress_throws onProgress a l t = Some err"
      by auto
    then show ?thesis
    proof cases
      case 1
      with Inl show ?thesis by simp
    next
      case 2
      with Inl show ?thesis by simp
    next
      case 3
      have "\<exists>a l t err. onProgress_throws onProgress a l t = Some err \<and> fst ?run = Inl err"
        using 3 Inl by (intro exI [of _ a] exI [of _ l] exI [of _ t] exI [of _ err]) simp
      then show ?thesis by simp
    qed
  qed
  have run: "t = translatedText (fst (processVideo_loop p e (\<lambda>frameUri. pf e frameUri m)
               onProgress ?frames 0 initial_decoder []))
        \<and> (\<exists>rest. snd (processVideo_using pf p e v (Some m) onProgress) =
                onProgress_call onProgress 10 None ''Extracting frames...''
                  @ snd (extractFrames p e v) @ rest
              \<and> acquired rest = [] \<and> classified rest = ?frames \<and> deleted rest = ?frames)"
    if ok: "fst (processVideo_using pf p e v (Some m) onProgress) = Inr t"
  proof -
    let ?q = "returning (onProgress \<noteq> None)"
    let ?stq = "frame_steps p e (\<lambda>f. pf e f m) ?q (length ?frames) 0 initial_decoder ?frames"
    let ?text = "translatedText (decode p initial_decoder (map (\<lambda>f. pf e f m) ?frames))"
    let ?rest = "onProgress_call ?q 30 None ''Processing frames...''
                  @ fst (snd ?stq) @ onProgress_call ?q 100 None ?text"
    note same = processVideo_using_resolved [OF ok]
    from ok have ne: "?frames \<noteq> []"
      unfolding same by (auto simp add: processVideo_using_cases split: if_splits)
    from ok have t: "t = ?text"
      unfolding same using ne by (simp add: processVideo_using_cases)
    have th: "snd (snd (frame_steps p e (\<lambda>f. pf e f m) onProgress (length ?frames) 0
                initial_decoder ?frames)) = None"
      using ok ne
      by (cases "snd (snd (frame_steps p e (\<lambda>f. pf e f m) onProgress (length ?frames) 0
                initial_decoder ?frames))")
         (auto simp add: processVideo_using_steps Let_def split: option.splits)
    have loop: "fst (processVideo_loop p e (\<lambda>frameUri. pf e frameUri m) onProgress ?frames 0
                  initial_decoder []) = decode p initial_decoder (map (\<lambda>f. pf e f m) ?frames)"
      by (simp add: processVideo_loop_steps fst_frame_steps [OF th])
    have tr: "snd (processVideo_using pf p e v (Some m) onProgress) =
            onProgress_call onProgress 10 None ''Extracting frames...''
              @ snd (extractFrames p e v) @ ?rest"
      unfolding same using ne
      by (simp add: processVideo_using_cases onProgress_call_returning [of onProgress])
    have pr: "acquired ?rest = []" "classified ?rest = ?frames" "deleted ?rest = ?frames"
      by (simp_all add: acquired_frame_steps classified_frame_steps deleted_frame_steps)
    have "\<exists>rest. snd (processVideo_using pf p e v (Some m) onProgress) =
                onProgress_call onProgress 10 None ''Extracting frames...''
                  @ snd (extractFrames p e v) @ rest
              \<and> acquired rest = [] \<and> classified rest = ?frames \<and> deleted rest = ?frames"
      using tr pr by (intro exI [of _ ?rest]) simp
    then show ?thesis using t loop by simp
  qed
  have res: "\<exists>t. fst (processVideo_using pf p e v (Some m) onProgress) = Inr t"
    if nt: "\<forall>a l t. onProgress_throws onProgress a l t = None" and ne: "?frames \<noteq> []"
    unfolding processVideo_using_never_thrown [OF nt]
    using ne by (simp add: processVideo_using_cases)
  have acq: "acquired (fst (snd (processVideo_loop p e pf' onProgress frames 0 s []))) = []"
    by (simp add: calls_processVideo_loop acquired_frame_steps)
  note ord = processVideo_using_acquired_first [of pf p e v model onProgress]
  from out run res acq ord show ?thesis
    by (simp add: extractFrames_trace)
qed

text \<open>C7, at a concrete input: the session of two frames.\<close>

theorem C7_no_cancellation_witness:
  "fst (processVideo getSignLanguageProcessor two_frame_env ''video.mp4'' (Some ())
         (returning True)) = Inr []
   \<and> acquired (snd (extractFrames getSignLanguageProcessor two_frame_env ''video.mp4''))
       = [''frame0.jpg'', ''frame1.jpg'']
   \<and> (\<exists>rest. snd (processVideo getSignLanguageProcessor two_frame_env ''video.mp4''
                    (Some ()) (returning True)) =
                Called_onProgress 10 None ''Extracting frames...''
                  # snd (extractFrames getSignLanguageProcessor two_frame_env ''video.mp4'')
                  @ rest
              \<and> acquired rest = []
              \<and> classified rest = [''frame0.jpg'', ''frame1.jpg'']
              \<and> deleted rest = [''frame0.jpg'', ''frame1.jpg''])"
proof -
  have ok: "fst (processVideo_using processFrame getSignLanguageProcessor two_frame_env
      ''video.mp4'' (Some ()) (returning True)) = Inr []"
    unfolding processVideo_def [symmetric] processVideo_shipped extractFrames_two_frames
    by simp
  note c = C7_no_cancellation [where pf = processFrame and p = getSignLanguageProcessor
      and e = two_frame_env and v = "''video.mp4''" and model = "Some ()"
      and onProgress = "returning True" and m = "()" and t = "[]"
      and pf' = stub_classifier and frames = "[]" and s = initial_decoder]
  note resolved = c [THEN conjunct2, THEN conjunct1, THEN mp, OF ok, THEN conjunct2]
  note acq = c [THEN conjunct2, THEN conjunct2, THEN conjunct2, THEN conjunct2, THEN conjunct1]
  from ok resolved acq show ?thesis
    unfolding processVideo_def extractFrames_two_frames
    by simp
qed




text \<open>
  C9. \<open>extractFrames\<close> gives the thumbnails at \<open>0, 33, 66, ...\<close> milliseconds up to
  the first request that fails, and at most 100 of them: it gives fewer than 100 only
  when the next request failed. A session gives at most 100 frames to
  \<open>processFrame\<close>.
\<close>

theorem C9_at_most_100_frames:
  "fst (extractFrames p e v) = sampled_frames p e v
   \<and> length (fst (extractFrames p e v)) \<le> 100
   \<and> (length (fst (extractFrames p e v)) < 100 \<longrightarrow>
        getThumbnailAsync e v (length (fst (extractFrames p e v)) * FRAME_INTERVAL_MS p) = None)
   \<and> length (classified (snd (processVideo_using pf p e v model onProgress))) \<le> 100
   \<and> FRAME_INTERVAL_MS getSignLanguageProcessor = 33"
proof -
  have "length (classified (snd (processVideo_using pf p e v model onProgress))) \<le> 100"
    using classified_processVideo_using [of pf p e v model onProgress]
      length_sampled_frames [of p e v]
    by (simp add: fst_extractFrames)
  then show ?thesis
    by (simp add: fst_extractFrames length_sampled_frames sampled_frames_stop
          getSignLanguageProcessor_def)
qed

text \<open>C9, at a concrete input: the third request fails, and two frames are extracted.\<close>

theorem C9_at_most_100_frames_witness:
  "length (fst (extractFrames getSignLanguageProcessor two_frame_env ''video.mp4'')) = 2
   \<and> getThumbnailAsync two_frame_env ''video.mp4'' 66 = None
   \<and> sampled_frames getSignLanguageProcessor two_frame_env ''video.mp4''
       = [''frame0.jpg'', ''frame1.jpg'']"
proof -
  note c = C9_at_most_100_frames [of getSignLanguageProcessor two_frame_env "''video.mp4''"
      processFrame "Some ()" "returning True", unfolded extractFrames_two_frames]
  have s: "sampled_frames getSignLanguageProcessor two_frame_env ''video.mp4''
       = [''frame0.jpg'', ''frame1.jpg'']"
    using c [THEN conjunct1, symmetric] by simp
  have i: "FRAME_INTERVAL_MS getSignLanguageProcessor = 33"
    using c by (elim conjE)
  have "getThumbnailAsync two_frame_env ''video.mp4'' 66 = None"
    using c [THEN conjunct2, THEN conjunct2, THEN conjunct1] i by simp
  then show ?thesis
    unfolding extractFrames_two_frames using s by simp
qed

text \<open>
  C10. The shipped \<open>processFrame\<close> gives \<open>null\<close> for every frame, so every run of
  \<open>processVideo\<close> that resolves resolves with the empty text, whatever the callback,
  and it does resolve whenever a model is given, a frame was extracted and the three
  progress calls it makes return.
\<close>

theorem C10_shipped_classifier_gives_empty_text:
  "(fst (processVideo p e v model onProgress) = Inr t \<longrightarrow> t = [])
   \<and> (fst (extractFrames p e v) \<noteq> [] \<longrightarrow>
        fst (processVideo p e v (Some m) (returning given)) = Inr [])
   \<and> processFrame e f m = None
   \<and> (fst (extractFrames p e v) \<noteq> []
        \<and> onProgress_throws onProgress 10 None ''Extracting frames...'' = None
        \<and> onProgress_throws onProgress 30 None ''Processing frames...'' = None
        \<and> onProgress_throws onProgress 100 None [] = None \<longrightarrow>
        fst (processVideo p e v (Some m) onProgress) = Inr [])"
proof -
  have "t = []" if "fst (processVideo p e v model onProgress) = Inr t"
    using that unfolding processVideo_shipped
    by (auto simp add: Let_def split: option.splits if_splits)
  moreover have "fst (processVideo p e v (Some m) (returning given)) = Inr []"
    if "fst (extractFrames p e v) \<noteq> []"
    using that unfolding processVideo_shipped by (simp add: Let_def)
  moreover have "fst (processVideo p e v (Some m) onProgress) = Inr []"
    if "fst (extractFrames p e v) \<noteq> []"
      and "onProgress_throws onProgress 10 None ''Extracting frames...'' = None"
      and "onProgress_throws onProgress 30 None ''Processing frames...'' = None"
      and "onProgress_throws onProgress 100 None [] = None"
    using that unfolding processVideo_shipped by (simp add: Let_def)
  ultimately show ?thesis by simp
qed

text \<open>C10, at a concrete input: the session of two frames resolves with the empty text.\<close>

theorem C10_shipped_classifier_gives_empty_text_witness:
  "fst (processVideo getSignLanguageProcessor two_frame_env ''video.mp4'' (Some ())
         (returning True)) = Inr []
   \<and> processFrame two_frame_env ''frame0.jpg'' () = None"
  using C10_shipped_classifier_gives_empty_text [where p = getSignLanguageProcessor
      and e = two_frame_env and v = "''video.mp4''" and model = "Some ()"
      and onProgress = "returning True" and t = "[]" and m = "()" and f = "''frame0.jpg''"
      and given = True]
  unfolding extractFrames_two_frames
  by simp

end
